theory Spec2Isabelle
  imports Complex_Main "HOL-Library.Word" "HOL-Library.Multiset"
begin

section \<open>The process monitor of sysmon.cpp\<close>

text \<open>
  The program is one file: \<^verbatim>\<open>read_proc\<close> reads the counters of a process from
  \<^verbatim>\<open>/proc\<close>, and \<^verbatim>\<open>main\<close> runs the loop that samples every process, derives the
  percentages, sorts, renders and handles one key.

  Conventions of the embedding (LP64 Linux, the only platform with this \<^verbatim>\<open>/proc\<close>):
  \<^item> \<^verbatim>\<open>unsigned long\<close> and \<^verbatim>\<open>unsigned long long\<close> are \<open>64 word\<close>: their arithmetic wraps
    and their comparisons are unsigned;
  \<^item> \<^verbatim>\<open>int\<close> and \<^verbatim>\<open>long\<close> are \<open>int\<close> with the range written out: an operation whose
    result leaves the range is undefined in C++ and is the fault \<open>SignedOverflow\<close>;
  \<^item> \<^verbatim>\<open>double\<close> is \<open>real\<close>: rounding is not modelled. A division of doubles by zero
    gives an infinity or a NaN, no number; the model makes it the fault \<open>DivisionByZero\<close>,
    so that its absence is something to prove;
  \<^item> an uncaught exception of \<^verbatim>\<open>std::stoul\<close> or \<^verbatim>\<open>std::stol\<close> and an access to a vector
    outside its bounds are faults too; every function that can fault returns
    \<open>fault + 'a\<close>, with \<open>Inl\<close> the fault.
\<close>

subsection \<open>Data\<close>

type_synonym ulong = "64 word"
type_synonym uid_t = "32 word"

record ProcInfo =
  pid :: int
  uid :: uid_t
  user :: string
  cmd :: string
  utime :: ulong
  stime :: ulong
  rss :: int
  vsize :: ulong
  cpu_percent :: real
  mem_percent :: real

datatype fault = InvalidArgument | OutOfRange | DivisionByZero | SignedOverflow | IndexOutOfBounds

datatype SortMode = BY_CPU | BY_MEM | BY_PID

text \<open>What \<^verbatim>\<open>getch()\<close> returns: \<^verbatim>\<open>ERR\<close> when no key is pending, a function key, or a
  character.\<close>

datatype key = ERR | KEY_UP | KEY_DOWN | KEY_OTHER nat | CH char

text \<open>The locals of \<^verbatim>\<open>main\<close> that live across iterations of the loop.\<close>

record loop_state =
  highlight :: int
  interval_s :: int
  sortmode :: SortMode
  page_size :: int
  prev_total_jiffies :: ulong
  prev_proc_jiffies :: "int \<rightharpoonup> ulong"

text \<open>
  What one iteration reads from its surroundings: the results of \<^verbatim>\<open>read_total_jiffies()\<close>,
  \<^verbatim>\<open>read_mem_total_kb()\<close> and \<^verbatim>\<open>list_pids()\<close>, the files under \<^verbatim>\<open>/proc/<pid>\<close>
  (\<open>None\<close> when the file cannot be opened, else the first line of \<^verbatim>\<open>stat\<close> and the lines
  of \<^verbatim>\<open>status\<close>), the password database, what \<^verbatim>\<open>iss >> p.uid\<close> extracts from a text, the
  indeterminate value an uninitialised \<^verbatim>\<open>uid\<close> holds, the height of the terminal, the key
  and the return value of \<^verbatim>\<open>kill(pid, SIGTERM)\<close>.
\<close>

record cycle_env =
  total_jiffies :: ulong
  mem_total_kb :: ulong
  pids :: "int list"
  stat_line :: "int \<Rightarrow> string option"
  status_lines :: "int \<Rightarrow> string list option"
  getpwuid :: "uid_t \<Rightarrow> string option"
  extract_uid :: "string \<Rightarrow> uid_t"
  indeterminate_uid :: uid_t
  rows :: int
  ch :: key
  kill_result :: "int \<Rightarrow> int"

datatype status = Killed int | FailedToKill int

datatype outcome = Quit | Continue loop_state "status option"

subsection \<open>Faults and checked arithmetic\<close>

definition bind_fault :: "fault + 'a \<Rightarrow> ('a \<Rightarrow> fault + 'b) \<Rightarrow> fault + 'b" where
  "bind_fault r f = (case r of Inl x \<Rightarrow> Inl x | Inr v \<Rightarrow> f v)"

definition INT_MAX :: int where "INT_MAX = 2147483647"
definition INT_MIN :: int where "INT_MIN = - 2147483648"
definition LONG_MAX :: int where "LONG_MAX = 9223372036854775807"
definition LONG_MIN :: int where "LONG_MIN = - 9223372036854775808"
definition ULONG_MAX :: nat where "ULONG_MAX = 18446744073709551615"

definition in_int :: "int \<Rightarrow> fault + int" where
  "in_int v = (if INT_MIN \<le> v \<and> v \<le> INT_MAX then Inr v else Inl SignedOverflow)"

definition in_long :: "int \<Rightarrow> fault + int" where
  "in_long v = (if LONG_MIN \<le> v \<and> v \<le> LONG_MAX then Inr v else Inl SignedOverflow)"

definition double_div :: "real \<Rightarrow> real \<Rightarrow> fault + real" where
  "double_div x y = (if y = 0 then Inl DivisionByZero else Inr (x / y))"

definition at_index :: "'a list \<Rightarrow> int \<Rightarrow> fault + 'a" where
  "at_index xs i = (if 0 \<le> i \<and> i < int (length xs) then Inr (xs ! nat i) else Inl IndexOutOfBounds)"

subsection \<open>Reading a process: \<^verbatim>\<open>read_proc\<close>\<close>

definition isspace :: "char \<Rightarrow> bool" where
  "isspace c \<longleftrightarrow> c = CHR '' '' \<or> (9 \<le> (of_char c :: nat) \<and> (of_char c :: nat) \<le> 13)"

definition isdigit :: "char \<Rightarrow> bool" where
  "isdigit c \<longleftrightarrow> 48 \<le> (of_char c :: nat) \<and> (of_char c :: nat) \<le> 57"

text \<open>\<^verbatim>\<open>while (iss >> token) toks.push_back(token)\<close>: the maximal runs of characters that
  are not white space; the first argument holds the token being read, reversed.\<close>

fun tokens_from :: "string \<Rightarrow> string \<Rightarrow> string list" where
  "tokens_from cur [] = (if cur = [] then [] else [rev cur])"
| "tokens_from cur (c # cs) =
     (if isspace c then (if cur = [] then tokens_from [] cs else rev cur # tokens_from [] cs)
      else tokens_from (c # cur) cs)"

definition tokens :: "string \<Rightarrow> string list" where
  "tokens line = tokens_from [] line"

text \<open>The number a run of decimal digits denotes.\<close>

definition digits_value :: "string \<Rightarrow> nat" where
  "digits_value ds = foldl (\<lambda>a c. 10 * a + ((of_char c :: nat) - 48)) 0 ds"

text \<open>
  \<^verbatim>\<open>std::stoul\<close> and \<^verbatim>\<open>std::stol\<close> in base 10, as \<^verbatim>\<open>strtoul\<close> and \<^verbatim>\<open>strtol\<close> convert: leading
  white space, an optional sign, the digits; what follows the digits is ignored. No digit
  throws \<^verbatim>\<open>std::invalid_argument\<close>, a magnitude out of range throws \<^verbatim>\<open>std::out_of_range\<close>;
  \<^verbatim>\<open>strtoul\<close> negates a number with a minus sign in the unsigned type.
\<close>

definition sign_and_digits :: "string \<Rightarrow> bool \<times> string" where
  "sign_and_digits s =
     (case dropWhile isspace s of
        [] \<Rightarrow> (False, [])
      | c # cs \<Rightarrow>
          if c = CHR ''-'' then (True, takeWhile isdigit cs)
          else if c = CHR ''+'' then (False, takeWhile isdigit cs)
          else (False, takeWhile isdigit (c # cs)))"

definition stoul :: "string \<Rightarrow> fault + ulong" where
  "stoul s =
     (case sign_and_digits s of (neg, ds) \<Rightarrow>
        if ds = [] then Inl InvalidArgument
        else if digits_value ds > ULONG_MAX then Inl OutOfRange
        else Inr (if neg then - word_of_nat (digits_value ds) else word_of_nat (digits_value ds)))"

definition stol :: "string \<Rightarrow> fault + int" where
  "stol s =
     (case sign_and_digits s of (neg, ds) \<Rightarrow>
        if ds = [] then Inl InvalidArgument
        else if neg then
          (if - int (digits_value ds) < LONG_MIN then Inl OutOfRange
           else Inr (- int (digits_value ds)))
        else
          (if int (digits_value ds) > LONG_MAX then Inl OutOfRange
           else Inr (int (digits_value ds))))"

text \<open>\<^verbatim>\<open>std::to_string\<close> of an unsigned number.\<close>

fun to_string :: "nat \<Rightarrow> string" where
  "to_string n =
     (if n < 10 then [char_of (48 + n)] else to_string (n div 10) @ [char_of (48 + n mod 10)])"

declare to_string.simps [simp del]

definition uid_to_user :: "cycle_env \<Rightarrow> uid_t \<Rightarrow> string" where
  "uid_to_user e u = (case getpwuid e u of Some name \<Rightarrow> name | None \<Rightarrow> to_string (unat u))"

text \<open>The command name without its parentheses.\<close>

definition strip_parens :: "string \<Rightarrow> string" where
  "strip_parens comm =
     (if comm \<noteq> [] \<and> hd comm = CHR ''('' \<and> last comm = CHR '')''
      then take (length comm - 2) (drop 1 comm) else comm)"

text \<open>The first half of \<^verbatim>\<open>read_proc\<close>: the \<^verbatim>\<open>stat\<close> file. A file that cannot be opened, or
  whose line has at most 23 tokens, leaves the fields at their defaults.\<close>

definition read_stat :: "cycle_env \<Rightarrow> ProcInfo \<Rightarrow> fault + ProcInfo" where
  "read_stat e p =
     (case stat_line e (pid p) of
        None \<Rightarrow> Inr p
      | Some line \<Rightarrow>
          let toks = tokens line in
          if length toks > 23 then
            bind_fault (stoul (toks ! 13)) (\<lambda>ut.
            bind_fault (stoul (toks ! 14)) (\<lambda>st.
            bind_fault (stoul (toks ! 22)) (\<lambda>vs.
            bind_fault (stol (toks ! 23)) (\<lambda>rs.
              Inr (p\<lparr>utime := ut, stime := st, vsize := vs, rss := rs,
                     cmd := strip_parens (toks ! 1)\<rparr>)))))
          else Inr p)"

text \<open>The second half: every line of \<^verbatim>\<open>status\<close> that starts with \<^verbatim>\<open>Uid:\<close> sets the uid
  and the user.\<close>

fun read_status_lines :: "cycle_env \<Rightarrow> ProcInfo \<Rightarrow> string list \<Rightarrow> ProcInfo" where
  "read_status_lines e p [] = p"
| "read_status_lines e p (l # ls) =
     (if take 4 l = ''Uid:''
      then read_status_lines e
             (p\<lparr>uid := extract_uid e (drop 4 l),
                user := uid_to_user e (extract_uid e (drop 4 l))\<rparr>) ls
      else read_status_lines e p ls)"

definition read_status :: "cycle_env \<Rightarrow> ProcInfo \<Rightarrow> ProcInfo" where
  "read_status e p =
     (let p1 = (case status_lines e (pid p) of
                  None \<Rightarrow> p
                | Some ls \<Rightarrow> read_status_lines e p ls)
      in if user p1 = [] then p1\<lparr>user := uid_to_user e (uid p1)\<rparr> else p1)"

definition read_proc :: "cycle_env \<Rightarrow> int \<Rightarrow> fault + ProcInfo" where
  "read_proc e n =
     bind_fault
       (read_stat e \<lparr>pid = n, uid = indeterminate_uid e, user = [], cmd = [],
                     utime = 0, stime = 0, rss = 0, vsize = 0,
                     cpu_percent = 0, mem_percent = 0\<rparr>)
       (\<lambda>p. Inr (read_status e p))"

subsection \<open>Deriving the percentages: the body of the sampling loop\<close>

text \<open>The locals \<^verbatim>\<open>delta\<close>, \<^verbatim>\<open>total_delta\<close>, \<^verbatim>\<open>cpu_pct\<close> and \<^verbatim>\<open>mem_pct\<close> of the loop over
  the pids, as functions of what they are computed from.\<close>

definition delta :: "ulong \<Rightarrow> ulong \<Rightarrow> ulong" where
  "delta cur prev = (if cur \<ge> prev then cur - prev else 0)"

definition total_delta :: "ulong \<Rightarrow> ulong \<Rightarrow> ulong" where
  "total_delta tj ptj = (if tj \<ge> ptj then tj - ptj else 0)"

definition cpu_pct :: "ulong \<Rightarrow> ulong \<Rightarrow> fault + real" where
  "cpu_pct d td =
     (if td > 0 then double_div (100 * real (unat d)) (real (unat td)) else Inr 0)"

definition mem_pct :: "int \<Rightarrow> int \<Rightarrow> ulong \<Rightarrow> fault + real" where
  "mem_pct rs ps kb =
     (if kb > 0
      then bind_fault (in_long (rs * ps)) (\<lambda>bytes.
             double_div (100 * (real_of_int bytes / 1024)) (real (unat kb)))
      else Inr 0)"

text \<open>\<^verbatim>\<open>prev_proc_jiffies.count(pid) ? prev_proc_jiffies[pid] : 0\<close>\<close>

definition prev_of :: "(int \<rightharpoonup> ulong) \<Rightarrow> int \<Rightarrow> ulong" where
  "prev_of m n = (case m n of Some v \<Rightarrow> v | None \<Rightarrow> 0)"

text \<open>One pass of \<^verbatim>\<open>for (int pid : pids)\<close>, on the vector \<^verbatim>\<open>procs\<close> and the map
  \<^verbatim>\<open>prev_proc_jiffies\<close>: the process is read, its percentages are derived, it is pushed
  to the back of the vector and its ticks are stored in the map.\<close>

definition sample_proc ::
  "cycle_env \<Rightarrow> loop_state \<Rightarrow> ProcInfo list \<times> (int \<rightharpoonup> ulong) \<Rightarrow> int
    \<Rightarrow> fault + (ProcInfo list \<times> (int \<rightharpoonup> ulong))" where
  "sample_proc e s acc n =
     (case acc of (procs, m) \<Rightarrow>
        bind_fault (read_proc e n) (\<lambda>p.
          let cur = utime p + stime p;
              prev = prev_of m n;
              d = delta cur prev;
              td = total_delta (total_jiffies e) (prev_total_jiffies s)
          in bind_fault (cpu_pct d td) (\<lambda>c.
             bind_fault (mem_pct (rss p) (page_size s) (mem_total_kb e)) (\<lambda>mp.
               Inr (procs @ [p\<lparr>cpu_percent := c, mem_percent := mp\<rparr>], m(n \<mapsto> cur))))))"

fun sample_loop ::
  "cycle_env \<Rightarrow> loop_state \<Rightarrow> ProcInfo list \<times> (int \<rightharpoonup> ulong) \<Rightarrow> int list
    \<Rightarrow> fault + (ProcInfo list \<times> (int \<rightharpoonup> ulong))" where
  "sample_loop e s acc [] = Inr acc"
| "sample_loop e s acc (n # ns) =
     (case sample_proc e s acc n of
        Inl f \<Rightarrow> Inl f
      | Inr acc' \<Rightarrow> sample_loop e s acc' ns)"

text \<open>Lines 128 to 150 of \<^verbatim>\<open>main\<close>: the vector starts empty, the map is the one of the
  iteration before, and \<^verbatim>\<open>prev_total_jiffies\<close> is set after the loop.\<close>

definition sample :: "cycle_env \<Rightarrow> loop_state \<Rightarrow> fault + (ProcInfo list \<times> loop_state)" where
  "sample e s =
     (case sample_loop e s ([], prev_proc_jiffies s) (pids e) of
        Inl f \<Rightarrow> Inl f
      | Inr (procs, m) \<Rightarrow>
          Inr (procs, s\<lparr>prev_proc_jiffies := m, prev_total_jiffies := total_jiffies e\<rparr>))"

subsection \<open>Sorting\<close>

text \<open>
  \<^verbatim>\<open>std::sort(first, last, comp)\<close> belongs to the C++ library, which fixes its result
  only up to the order of equivalent elements: the range is rearranged, and afterwards
  \<^verbatim>\<open>comp(*(i + n), *i)\<close> is false for every position \<open>i\<close> and every \<open>n\<close>. It is therefore
  a relation between the vector before and after.
\<close>

definition std_sort :: "('a \<Rightarrow> 'a \<Rightarrow> bool) \<Rightarrow> 'a list \<Rightarrow> 'a list \<Rightarrow> bool" where
  "std_sort cmp xs ys \<longleftrightarrow> mset ys = mset xs \<and> sorted_wrt (\<lambda>a b. \<not> cmp b a) ys"

definition sort_procs :: "SortMode \<Rightarrow> ProcInfo list \<Rightarrow> ProcInfo list \<Rightarrow> bool" where
  "sort_procs sm procs sorted_procs =
     (if sm = BY_CPU
      then std_sort (\<lambda>a b. cpu_percent a > cpu_percent b) procs sorted_procs
      else if sm = BY_MEM
      then std_sort (\<lambda>a b. mem_percent a > mem_percent b) procs sorted_procs
      else std_sort (\<lambda>a b. pid a < pid b) procs sorted_procs)"

subsection \<open>Rendering and the key\<close>

text \<open>The rows the loop of lines 172 to 180 prints, each with whether it is printed in
  reverse video (\<^verbatim>\<open>i == highlight\<close>).\<close>

definition render_rows :: "int \<Rightarrow> ProcInfo list \<Rightarrow> int \<Rightarrow> (ProcInfo \<times> bool) list" where
  "render_rows rws procs h =
     map (\<lambda>i. (procs ! i, int i = h)) [0 ..< nat (min (rws - 5) (int (length procs)))]"

text \<open>Lines 184 to 201: one key, tested by every \<^verbatim>\<open>if\<close> in turn.\<close>

definition handle_key :: "cycle_env \<Rightarrow> loop_state \<Rightarrow> ProcInfo list \<Rightarrow> fault + outcome" where
  "handle_key e s procs =
     (if ch e \<noteq> ERR then
        if ch e = CH (CHR ''q'') then Inr Quit
        else
          bind_fault (if ch e = KEY_UP
                      then bind_fault (in_int (highlight s - 1)) (\<lambda>v. Inr (max 0 v))
                      else Inr (highlight s)) (\<lambda>h1.
          bind_fault (if ch e = KEY_DOWN
                      then bind_fault (in_int (int (length procs) - 1)) (\<lambda>a.
                           bind_fault (in_int (h1 + 1)) (\<lambda>b. Inr (min a b)))
                      else Inr h1) (\<lambda>h2.
          let sm1 = (if ch e = CH (CHR ''c'') then BY_CPU else sortmode s);
              sm2 = (if ch e = CH (CHR ''m'') then BY_MEM else sm1);
              sm3 = (if ch e = CH (CHR ''p'') then BY_PID else sm2)
          in
          bind_fault (if ch e = CH (CHR ''+'')
                      then bind_fault (in_int (interval_s s - 1)) (\<lambda>v. Inr (max 1 v))
                      else Inr (interval_s s)) (\<lambda>i1.
          bind_fault (if ch e = CH (CHR ''-'') then in_int (i1 + 1) else Inr i1) (\<lambda>i2.
          let s' = s\<lparr>highlight := h2, sortmode := sm3, interval_s := i2\<rparr> in
          if ch e = CH (CHR ''k'') \<and> h2 \<ge> 0 \<and> h2 < int (length procs)
          then bind_fault (at_index procs h2) (\<lambda>p.
                 Inr (Continue s'
                        (Some (if kill_result e (pid p) = 0 then Killed (pid p)
                               else FailedToKill (pid p)))))
          else Inr (Continue s' None)))))
      else Inr (Continue s None))"

subsection \<open>The loop\<close>

text \<open>One iteration of \<^verbatim>\<open>while (true)\<close>: it ends in a fault, or with the rows it rendered
  and the outcome of the key.\<close>

inductive iteration ::
  "cycle_env \<Rightarrow> loop_state \<Rightarrow> fault + ((ProcInfo \<times> bool) list \<times> outcome) \<Rightarrow> bool" where
  sample_fault:
    "sample e s = Inl f \<Longrightarrow> iteration e s (Inl f)"
| key_fault:
    "sample e s = Inr (procs, s1) \<Longrightarrow> sort_procs (sortmode s1) procs sorted_procs \<Longrightarrow>
     handle_key e s1 sorted_procs = Inl f \<Longrightarrow> iteration e s (Inl f)"
| completed:
    "sample e s = Inr (procs, s1) \<Longrightarrow> sort_procs (sortmode s1) procs sorted_procs \<Longrightarrow>
     handle_key e s1 sorted_procs = Inr out \<Longrightarrow>
     iteration e s (Inr (render_rows (rows e) sorted_procs (highlight s1), out))"

text \<open>The state before the loop, from the page size and the first reading of the total
  jiffies.\<close>

definition init_state :: "int \<Rightarrow> ulong \<Rightarrow> loop_state" where
  "init_state ps j0 =
     \<lparr>highlight = 0, interval_s = 2, sortmode = BY_CPU, page_size = ps,
      prev_total_jiffies = j0, prev_proc_jiffies = Map.empty\<rparr>"

text \<open>The states at the head of the loop.\<close>

inductive reachable :: "loop_state \<Rightarrow> bool" where
  start: "reachable (init_state ps j0)"
| step: "reachable s \<Longrightarrow> iteration e s (Inr (frame, Continue s' msg)) \<Longrightarrow> reachable s'"

subsection \<open>Concrete runs\<close>

text \<open>
  Lines of \<^verbatim>\<open>/proc/<pid>/stat\<close> with 25 fields, of a process that has used 100, 150 and
  10 ticks (fields 14 and 15 are \<^verbatim>\<open>utime\<close> and \<^verbatim>\<open>stime\<close>, field 24 is the resident set in
  pages); a machine with 8000 kB of memory and pages of 4096 bytes, where \<^verbatim>\<open>getpwuid\<close>
  knows every uid as root; the state of the loop with the first total of 1000 jiffies.
\<close>

definition ex_stat_100 :: string where
  "ex_stat_100 = ''7 (bash) S 1 7 7 0 -1 4194304 100 0 0 0 60 40 0 0 20 0 1 0 100 4096000 500 18446744073709551615''"

definition ex_stat_150 :: string where
  "ex_stat_150 = ''7 (bash) S 1 7 7 0 -1 4194304 100 0 0 0 90 60 0 0 20 0 1 0 100 4096000 500 18446744073709551615''"

definition ex_stat_10 :: string where
  "ex_stat_10 = ''7 (sh) R 1 7 7 0 -1 4194304 100 0 0 0 6 4 0 0 20 0 1 0 900 4096000 500 18446744073709551615''"

definition ex_env :: "ulong \<Rightarrow> int list \<Rightarrow> (int \<Rightarrow> string option) \<Rightarrow> key \<Rightarrow> cycle_env" where
  "ex_env tj ns sl k =
     \<lparr>total_jiffies = tj, mem_total_kb = 8000, pids = ns, stat_line = sl,
      status_lines = (\<lambda>n. case sl n of None \<Rightarrow> None
                                | Some l \<Rightarrow> Some [''Name: bash'', ''Uid: 0 0 0 0'']),
      getpwuid = (\<lambda>u. Some ''root''), extract_uid = (\<lambda>t. 0), indeterminate_uid = 0,
      rows = 24, ch = k, kill_result = (\<lambda>n. 0)\<rparr>"

definition ex_state :: "int \<Rightarrow> (int \<rightharpoonup> ulong) \<Rightarrow> loop_state" where
  "ex_state h m = (init_state 4096 1000)\<lparr>highlight := h, prev_proc_jiffies := m\<rparr>"

definition ex_proc :: "int \<Rightarrow> string \<Rightarrow> ulong \<Rightarrow> ulong \<Rightarrow> real \<Rightarrow> real \<Rightarrow> ProcInfo" where
  "ex_proc n c ut st cp mp =
     \<lparr>pid = n, uid = 0, user = ''root'', cmd = c, utime = ut, stime = st, rss = 500,
      vsize = 4096000, cpu_percent = cp, mem_percent = mp\<rparr>"

text \<open>The entry of a process whose \<^verbatim>\<open>stat\<close> file could not be opened, and processes
  that have used no tick.\<close>

definition ex_gone :: ProcInfo where
  "ex_gone = \<lparr>pid = 7, uid = 0, user = ''root'', cmd = [], utime = 0, stime = 0, rss = 0,
              vsize = 0, cpu_percent = 0, mem_percent = 0\<rparr>"

definition ex_idle :: "int list \<Rightarrow> ProcInfo list" where
  "ex_idle ns = map (\<lambda>n. ex_proc n ''idle'' 0 0 0 25) ns"

section \<open>Properties\<close>

subsection \<open>Faults, percentages and reading\<close>

lemma bind_fault_Inl [simp]: "bind_fault (Inl x) f = Inl x"
  by (simp add: bind_fault_def)

lemma bind_fault_Inr [simp]: "bind_fault (Inr v) f = f v"
  by (simp add: bind_fault_def)

lemma bind_fault_eq_Inr:
  "bind_fault r f = Inr y \<longleftrightarrow> (\<exists>v. r = Inr v \<and> f v = Inr y)"
  by (cases r) simp_all

lemma bind_fault_eq_Inl:
  "bind_fault r f = Inl x \<longleftrightarrow> r = Inl x \<or> (\<exists>v. r = Inr v \<and> f v = Inl x)"
  by (cases r) simp_all

lemma double_div_pos: "0 < y \<Longrightarrow> double_div x y = Inr (x / y)"
  by (simp add: double_div_def)

lemma real_unat_pos: "0 < (w :: ulong) \<Longrightarrow> 0 < real (unat w)"
proof -
  assume "0 < w"
  then have "w \<noteq> 0" by auto
  then have "0 < unat w" by (simp add: unat_gt_0)
  then show ?thesis by (rule of_nat_0_less_iff [THEN iffD2])
qed

lemma real_unat_nonzero: "0 < (w :: ulong) \<Longrightarrow> real (unat w) \<noteq> 0"
  using real_unat_pos [of w] by linarith

lemma cpu_pct_value:
  "cpu_pct d td = Inr (if 0 < td then 100 * real (unat d) / real (unat td) else 0)"
proof (cases "0 < td")
  case True
  then show ?thesis
    unfolding cpu_pct_def using double_div_pos [OF real_unat_pos [OF True]] by presburger
next
  case False
  then show ?thesis unfolding cpu_pct_def by presburger
qed

lemma cpu_pct_nonneg: "cpu_pct d td = Inr c \<Longrightarrow> 0 \<le> c"
proof -
  assume a: "cpu_pct d td = Inr c"
  have "0 \<le> (if 0 < td then 100 * real (unat d) / real (unat td) else 0)"
    by (simp del: of_nat_unat)
  with a show ?thesis unfolding cpu_pct_value by (simp del: of_nat_unat)
qed

lemma cpu_pct_zero_total: "cpu_pct d 0 = Inr 0"
  by (simp add: cpu_pct_value)

lemma cpu_pct_zero_delta: "cpu_pct 0 td = Inr 0"
  by (simp add: cpu_pct_value)

lemma delta_reuse: "cur < prev \<Longrightarrow> delta cur prev = 0"
  by (auto simp: delta_def)

lemma total_delta_backwards: "tj \<le> ptj \<Longrightarrow> total_delta tj ptj = 0"
  by (auto simp: total_delta_def)

lemma mem_pct_value:
  "mem_pct rs ps kb =
     (if 0 < kb then
        (if LONG_MIN \<le> rs * ps \<and> rs * ps \<le> LONG_MAX
         then Inr (100 * (real_of_int (rs * ps) / 1024) / real (unat kb))
         else Inl SignedOverflow)
      else Inr 0)"
proof (cases "0 < kb")
  case True
  show ?thesis
    unfolding mem_pct_def in_long_def
    using True double_div_pos [OF real_unat_pos [OF True]]
    by (simp del: of_nat_unat)
next
  case False
  then show ?thesis unfolding mem_pct_def by presburger
qed

lemma mem_pct_faults: "mem_pct rs ps kb = Inl f \<Longrightarrow> f = SignedOverflow"
  unfolding mem_pct_value by (simp split: if_splits)

lemma stoul_faults: "stoul t = Inl f \<Longrightarrow> f = InvalidArgument \<or> f = OutOfRange"
  by (auto simp: stoul_def split: prod.splits if_splits)

lemma stol_faults: "stol t = Inl f \<Longrightarrow> f = InvalidArgument \<or> f = OutOfRange"
  by (auto simp: stol_def split: prod.splits if_splits)

lemma read_stat_faults: "read_stat e p = Inl f \<Longrightarrow> f = InvalidArgument \<or> f = OutOfRange"
  by (auto simp: read_stat_def Let_def bind_fault_eq_Inl split: option.splits if_splits
      dest: stoul_faults stol_faults)

lemma read_proc_faults: "read_proc e n = Inl f \<Longrightarrow> f = InvalidArgument \<or> f = OutOfRange"
  by (auto simp: read_proc_def bind_fault_eq_Inl dest: read_stat_faults)

lemma read_stat_pid: "read_stat e p = Inr q \<Longrightarrow> pid q = pid p"
  by (auto simp: read_stat_def Let_def bind_fault_eq_Inr split: option.splits if_splits)

lemma read_status_lines_pid: "pid (read_status_lines e p ls) = pid p"
  by (induction ls arbitrary: p) simp_all

lemma read_status_pid: "pid (read_status e p) = pid p"
  by (simp add: read_status_def Let_def read_status_lines_pid split: option.splits)

lemma read_proc_pid: "read_proc e n = Inr p \<Longrightarrow> pid p = n"
  by (auto simp: read_proc_def bind_fault_eq_Inr read_status_pid dest: read_stat_pid)

lemma sample_proc_Inr:
  assumes "sample_proc e s (procs, m) n = Inr (procs', m')"
  shows "\<exists>p c mp. read_proc e n = Inr p
           \<and> cpu_pct (delta (utime p + stime p) (prev_of m n))
                (total_delta (total_jiffies e) (prev_total_jiffies s)) = Inr c
           \<and> mem_pct (rss p) (page_size s) (mem_total_kb e) = Inr mp
           \<and> procs' = procs @ [p\<lparr>cpu_percent := c, mem_percent := mp\<rparr>]
           \<and> m' = m(n \<mapsto> utime p + stime p)"
  using assms by (auto simp: sample_proc_def Let_def bind_fault_eq_Inr)

lemma sample_proc_faults:
  assumes "sample_proc e s acc n = Inl f"
  shows "f = InvalidArgument \<or> f = OutOfRange \<or> f = SignedOverflow"
proof -
  obtain procs m where acc: "acc = (procs, m)" by (cases acc)
  from assms show ?thesis
    unfolding acc sample_proc_def Let_def
    by (auto simp: bind_fault_eq_Inl cpu_pct_value dest: read_proc_faults mem_pct_faults)
qed

lemma sample_loop_faults:
  "sample_loop e s acc ns = Inl f \<Longrightarrow> f = InvalidArgument \<or> f = OutOfRange \<or> f = SignedOverflow"
proof (induction ns arbitrary: acc)
  case Nil
  then show ?case by simp
next
  case (Cons n ns)
  then show ?case
    by (auto split: sum.splits dest: sample_proc_faults)
qed

lemma sample_faults:
  "sample e s = Inl f \<Longrightarrow> f = InvalidArgument \<or> f = OutOfRange \<or> f = SignedOverflow"
  by (auto simp: sample_def split: sum.splits prod.splits dest: sample_loop_faults)


lemma sample_loop_all:
  assumes "sample_loop e s (procs0, m0) ns = Inr (procs, m)"
    and step: "\<And>ps mm n ps' mm'. sample_proc e s (ps, mm) n = Inr (ps', mm')
                 \<Longrightarrow> \<exists>q. ps' = ps @ [q] \<and> Q q"
  shows "\<exists>new. procs = procs0 @ new \<and> (\<forall>q\<in>set new. Q q)"
  using assms(1)
proof (induction ns arbitrary: procs0 m0)
  case Nil
  then show ?case by simp
next
  case (Cons n ns)
  from Cons.prems obtain procs1 m1 where
    one: "sample_proc e s (procs0, m0) n = Inr (procs1, m1)" and
    rest: "sample_loop e s (procs1, m1) ns = Inr (procs, m)"
    by (auto split: sum.splits)
  from step [OF one] obtain q where q: "procs1 = procs0 @ [q]" "Q q" by blast
  from Cons.IH [OF rest] obtain new where
    new: "procs = procs1 @ new" "\<forall>q\<in>set new. Q q" by blast
  have "procs = procs0 @ (q # new)" using q(1) new(1) by simp
  moreover have "\<forall>x\<in>set (q # new). Q x" using q(2) new(2) by simp
  ultimately show ?case by blast
qed

lemma sample_all:
  assumes "sample e s = Inr (procs, s')"
    and step: "\<And>ps mm n ps' mm'. sample_proc e s (ps, mm) n = Inr (ps', mm')
                 \<Longrightarrow> \<exists>q. ps' = ps @ [q] \<and> Q q"
  shows "\<forall>q\<in>set procs. Q q"
proof -
  from assms(1) obtain m where
    "sample_loop e s ([], prev_proc_jiffies s) (pids e) = Inr (procs, m)"
    by (auto simp: sample_def split: sum.splits prod.splits)
  from sample_loop_all [OF this step] show ?thesis by simp
qed

subsection \<open>The sampling loop\<close>

lemma sample_loop_shape:
  assumes "sample_loop e s (procs0, m0) ns = Inr (procs, m)"
  shows "\<exists>new. procs = procs0 @ new \<and> map pid new = ns
           \<and> dom m = dom m0 \<union> set ns \<and> (\<forall>k. k \<notin> set ns \<longrightarrow> m k = m0 k)"
  using assms
proof (induction ns arbitrary: procs0 m0)
  case Nil
  then show ?case by simp
next
  case (Cons n ns)
  from Cons.prems obtain procs1 m1 where
    one: "sample_proc e s (procs0, m0) n = Inr (procs1, m1)" and
    rest: "sample_loop e s (procs1, m1) ns = Inr (procs, m)"
    by (auto split: sum.splits)
  from sample_proc_Inr [OF one] obtain p c mp where
    p: "read_proc e n = Inr p"
       "procs1 = procs0 @ [p\<lparr>cpu_percent := c, mem_percent := mp\<rparr>]"
       "m1 = m0(n \<mapsto> utime p + stime p)"
    by blast
  from Cons.IH [OF rest] obtain new where
    new: "procs = procs1 @ new" "map pid new = ns" "dom m = dom m1 \<union> set ns"
         "\<forall>k. k \<notin> set ns \<longrightarrow> m k = m1 k"
    by blast
  let ?q = "p\<lparr>cpu_percent := c, mem_percent := mp\<rparr>"
  have a: "procs = procs0 @ (?q # new)" using p(2) new(1) by simp
  have b: "map pid (?q # new) = n # ns" using new(2) read_proc_pid [OF p(1)] by simp
  have c: "dom m = dom m0 \<union> set (n # ns)" unfolding new(3) p(3) by simp
  have d: "\<forall>k. k \<notin> set (n # ns) \<longrightarrow> m k = m0 k" using new(4) unfolding p(3) by simp
  show ?case
  proof (intro exI conjI)
    show "procs = procs0 @ (?q # new)" by (rule a)
    show "map pid (?q # new) = n # ns" by (rule b)
    show "dom m = dom m0 \<union> set (n # ns)" by (rule c)
    show "\<forall>k. k \<notin> set (n # ns) \<longrightarrow> m k = m0 k" by (rule d)
  qed
qed


lemma sample_unfold:
  assumes "sample e s = Inr (procs, s')"
  shows "\<exists>m. sample_loop e s ([], prev_proc_jiffies s) (pids e) = Inr (procs, m)
           \<and> s' = s\<lparr>prev_proc_jiffies := m, prev_total_jiffies := total_jiffies e\<rparr>"
  using assms by (auto simp: sample_def split: sum.splits prod.splits)

lemma sample_shape:
  assumes "sample e s = Inr (procs, s')"
  shows "map pid procs = pids e"
    and "dom (prev_proc_jiffies s') = dom (prev_proc_jiffies s) \<union> set (pids e)"
    and "\<forall>k. k \<notin> set (pids e) \<longrightarrow> prev_proc_jiffies s' k = prev_proc_jiffies s k"
proof -
  from sample_unfold [OF assms] obtain m where
    loop: "sample_loop e s ([], prev_proc_jiffies s) (pids e) = Inr (procs, m)" and
    s': "s' = s\<lparr>prev_proc_jiffies := m, prev_total_jiffies := total_jiffies e\<rparr>"
    by blast
  from sample_loop_shape [OF loop] obtain new where
    new: "procs = [] @ new" "map pid new = pids e"
      "dom m = dom (prev_proc_jiffies s) \<union> set (pids e)"
      "\<forall>k. k \<notin> set (pids e) \<longrightarrow> m k = prev_proc_jiffies s k"
    by blast
  have m: "prev_proc_jiffies s' = m" unfolding s' by simp
  show "map pid procs = pids e" using new(1,2) by simp
  show "dom (prev_proc_jiffies s') = dom (prev_proc_jiffies s) \<union> set (pids e)"
    unfolding m by (rule new(3))
  show "\<forall>k. k \<notin> set (pids e) \<longrightarrow> prev_proc_jiffies s' k = prev_proc_jiffies s k"
    unfolding m by (rule new(4))
qed

lemma sample_keeps:
  assumes "sample e s = Inr (procs, s')"
  shows "highlight s' = highlight s" and "interval_s s' = interval_s s"
    and "sortmode s' = sortmode s" and "page_size s' = page_size s"
    and "prev_total_jiffies s' = total_jiffies e"
proof -
  from sample_unfold [OF assms] obtain m where
    s': "s' = s\<lparr>prev_proc_jiffies := m, prev_total_jiffies := total_jiffies e\<rparr>"
    by blast
  show "highlight s' = highlight s" and "interval_s s' = interval_s s"
    and "sortmode s' = sortmode s" and "page_size s' = page_size s"
    and "prev_total_jiffies s' = total_jiffies e"
    unfolding s' by simp_all
qed

lemma sample_proc_nonneg:
  assumes "sample_proc e s (ps, mm) n = Inr (ps', mm')"
  shows "\<exists>q. ps' = ps @ [q] \<and> 0 \<le> cpu_percent q"
proof -
  from sample_proc_Inr [OF assms] obtain p c mp where
    c: "cpu_pct (delta (utime p + stime p) (prev_of mm n))
          (total_delta (total_jiffies e) (prev_total_jiffies s)) = Inr c" and
    ps': "ps' = ps @ [p\<lparr>cpu_percent := c, mem_percent := mp\<rparr>]"
    by blast
  have "0 \<le> cpu_percent (p\<lparr>cpu_percent := c, mem_percent := mp\<rparr>)"
    using cpu_pct_nonneg [OF c] by simp
  with ps' show ?thesis by blast
qed

lemma sample_proc_zero_total:
  assumes "total_jiffies e \<le> prev_total_jiffies s"
    and "sample_proc e s (ps, mm) n = Inr (ps', mm')"
  shows "\<exists>q. ps' = ps @ [q] \<and> cpu_percent q = 0"
proof -
  from sample_proc_Inr [OF assms(2)] obtain p c mp where
    c: "cpu_pct (delta (utime p + stime p) (prev_of mm n))
          (total_delta (total_jiffies e) (prev_total_jiffies s)) = Inr c" and
    ps': "ps' = ps @ [p\<lparr>cpu_percent := c, mem_percent := mp\<rparr>]"
    by blast
  from c have "c = 0"
    unfolding total_delta_backwards [OF assms(1)] cpu_pct_zero_total by simp
  then have "cpu_percent (p\<lparr>cpu_percent := c, mem_percent := mp\<rparr>) = 0" by simp
  with ps' show ?thesis by blast
qed

lemma sample_proc_mem:
  assumes "sample_proc e s (ps, mm) n = Inr (ps', mm')"
  shows "\<exists>q. ps' = ps @ [q]
           \<and> mem_pct (rss q) (page_size s) (mem_total_kb e) = Inr (mem_percent q)"
proof -
  from sample_proc_Inr [OF assms] obtain p c mp where
    mp: "mem_pct (rss p) (page_size s) (mem_total_kb e) = Inr mp" and
    ps': "ps' = ps @ [p\<lparr>cpu_percent := c, mem_percent := mp\<rparr>]"
    by blast
  let ?q = "p\<lparr>cpu_percent := c, mem_percent := mp\<rparr>"
  have "mem_pct (rss ?q) (page_size s) (mem_total_kb e) = Inr (mem_percent ?q)"
    using mp by simp
  with ps' show ?thesis by blast
qed


lemma sample_proc_cpu:
  assumes "sample_proc e s (ps, mm) n = Inr (ps', mm')"
  shows "\<exists>q. ps' = ps @ [q] \<and> pid q = n \<and> mm' = mm(n \<mapsto> utime q + stime q)
           \<and> cpu_pct (delta (utime q + stime q) (prev_of mm n))
                (total_delta (total_jiffies e) (prev_total_jiffies s)) = Inr (cpu_percent q)"
proof -
  from sample_proc_Inr [OF assms] obtain p c mp where
    r: "read_proc e n = Inr p" and
    c: "cpu_pct (delta (utime p + stime p) (prev_of mm n))
          (total_delta (total_jiffies e) (prev_total_jiffies s)) = Inr c" and
    ps': "ps' = ps @ [p\<lparr>cpu_percent := c, mem_percent := mp\<rparr>]" and
    mm': "mm' = mm(n \<mapsto> utime p + stime p)"
    by blast
  let ?q = "p\<lparr>cpu_percent := c, mem_percent := mp\<rparr>"
  have "pid ?q = n" using read_proc_pid [OF r] by simp
  moreover have "mm' = mm(n \<mapsto> utime ?q + stime ?q)" using mm' by simp
  moreover have "cpu_pct (delta (utime ?q + stime ?q) (prev_of mm n))
      (total_delta (total_jiffies e) (prev_total_jiffies s)) = Inr (cpu_percent ?q)"
    using c by simp
  ultimately show ?thesis using ps' by blast
qed

lemma sample_loop_cpu:
  assumes "sample_loop e s (procs0, m0) ns = Inr (procs, m)" and "distinct ns"
  shows "\<exists>new. procs = procs0 @ new \<and> map pid new = ns
           \<and> (\<forall>q\<in>set new.
                 cpu_pct (delta (utime q + stime q) (prev_of m0 (pid q)))
                   (total_delta (total_jiffies e) (prev_total_jiffies s)) = Inr (cpu_percent q))"
  using assms
proof (induction ns arbitrary: procs0 m0)
  case Nil
  then show ?case by simp
next
  case (Cons n ns)
  from Cons.prems(1) obtain procs1 m1 where
    one: "sample_proc e s (procs0, m0) n = Inr (procs1, m1)" and
    rest: "sample_loop e s (procs1, m1) ns = Inr (procs, m)"
    by (auto split: sum.splits)
  from sample_proc_cpu [OF one] obtain q where
    q: "procs1 = procs0 @ [q]" "pid q = n" "m1 = m0(n \<mapsto> utime q + stime q)"
       "cpu_pct (delta (utime q + stime q) (prev_of m0 n))
          (total_delta (total_jiffies e) (prev_total_jiffies s)) = Inr (cpu_percent q)"
    by blast
  from Cons.prems(2) have dist: "distinct ns" and fresh: "n \<notin> set ns" by simp_all
  from Cons.IH [OF rest dist] obtain new where
    new: "procs = procs1 @ new" "map pid new = ns"
      "\<forall>x\<in>set new.
         cpu_pct (delta (utime x + stime x) (prev_of m1 (pid x)))
           (total_delta (total_jiffies e) (prev_total_jiffies s)) = Inr (cpu_percent x)"
    by blast
  have same: "prev_of m1 (pid x) = prev_of m0 (pid x)" if "x \<in> set new" for x
  proof -
    from that have "pid x \<in> set (map pid new)" by simp
    with new(2) fresh have "pid x \<noteq> n" by auto
    then show ?thesis by (simp add: prev_of_def q(3))
  qed
  show ?case
  proof (intro exI conjI)
    show "procs = procs0 @ (q # new)" using q(1) new(1) by simp
    show "map pid (q # new) = n # ns" using q(2) new(2) by simp
    show "\<forall>x\<in>set (q # new).
         cpu_pct (delta (utime x + stime x) (prev_of m0 (pid x)))
           (total_delta (total_jiffies e) (prev_total_jiffies s)) = Inr (cpu_percent x)"
      using q(2,4) new(3) same by simp
  qed
qed

lemma sample_cpu:
  assumes "sample e s = Inr (procs, s')" and "distinct (pids e)"
  shows "\<forall>q\<in>set procs.
           cpu_pct (delta (utime q + stime q) (prev_of (prev_proc_jiffies s) (pid q)))
             (total_delta (total_jiffies e) (prev_total_jiffies s)) = Inr (cpu_percent q)"
proof -
  from sample_unfold [OF assms(1)] obtain m where
    loop: "sample_loop e s ([], prev_proc_jiffies s) (pids e) = Inr (procs, m)"
    by blast
  from sample_loop_cpu [OF loop assms(2)] show ?thesis by simp
qed

lemma sample_nonneg:
  "sample e s = Inr (procs, s') \<Longrightarrow> \<forall>p\<in>set procs. 0 \<le> cpu_percent p"
  by (rule sample_all [where Q = "\<lambda>p. 0 \<le> cpu_percent p"]) (auto dest: sample_proc_nonneg)

lemma sample_zero_total:
  "total_jiffies e \<le> prev_total_jiffies s \<Longrightarrow> sample e s = Inr (procs, s') \<Longrightarrow>
     \<forall>p\<in>set procs. cpu_percent p = 0"
  by (rule sample_all [where Q = "\<lambda>p. cpu_percent p = 0"]) (auto dest: sample_proc_zero_total)

lemma sample_mem:
  "sample e s = Inr (procs, s') \<Longrightarrow>
     \<forall>p\<in>set procs. mem_pct (rss p) (page_size s) (mem_total_kb e) = Inr (mem_percent p)"
  by (rule sample_all
        [where Q = "\<lambda>p. mem_pct (rss p) (page_size s) (mem_total_kb e) = Inr (mem_percent p)"])
     (auto dest: sample_proc_mem)

subsection \<open>Unreadable processes and the entries of the map\<close>

lemma read_status_lines_fields:
  "utime (read_status_lines e p ls) = utime p \<and> stime (read_status_lines e p ls) = stime p
   \<and> rss (read_status_lines e p ls) = rss p \<and> vsize (read_status_lines e p ls) = vsize p
   \<and> cmd (read_status_lines e p ls) = cmd p"
  by (induction ls arbitrary: p) simp_all

lemma read_status_fields:
  "utime (read_status e p) = utime p \<and> stime (read_status e p) = stime p
   \<and> rss (read_status e p) = rss p \<and> vsize (read_status e p) = vsize p
   \<and> cmd (read_status e p) = cmd p"
  by (simp add: read_status_def Let_def read_status_lines_fields split: option.splits)

lemma read_stat_unreadable:
  "stat_line e (pid p) = None \<or> (\<exists>l. stat_line e (pid p) = Some l \<and> length (tokens l) \<le> 23)
     \<Longrightarrow> read_stat e p = Inr p"
  by (auto simp: read_stat_def Let_def)

lemma read_proc_unreadable:
  assumes "stat_line e n = None \<or> (\<exists>l. stat_line e n = Some l \<and> length (tokens l) \<le> 23)"
  shows "\<exists>p. read_proc e n = Inr p \<and> pid p = n \<and> utime p = 0 \<and> stime p = 0 \<and> rss p = 0
           \<and> vsize p = 0 \<and> cmd p = []"
proof -
  let ?p0 = "\<lparr>pid = n, uid = indeterminate_uid e, user = [], cmd = [],
              utime = 0, stime = 0, rss = 0, vsize = 0, cpu_percent = 0, mem_percent = 0\<rparr>"
  have "read_stat e ?p0 = Inr ?p0"
    by (rule read_stat_unreadable) (use assms in simp)
  then have "read_proc e n = Inr (read_status e ?p0)"
    by (simp add: read_proc_def)
  then show ?thesis
    by (simp add: read_status_fields read_status_pid)
qed

lemma delta_of_zero: "delta 0 prev = 0"
  by (simp add: delta_def)

lemma mem_pct_of_zero: "mem_pct 0 ps kb = Inr 0"
  by (simp add: mem_pct_value LONG_MIN_def LONG_MAX_def)

lemma sample_proc_unreadable:
  assumes "sample_proc e s (ps, mm) n = Inr (ps', mm')"
  shows "\<exists>q. ps' = ps @ [q]
           \<and> ((stat_line e (pid q) = None
                \<or> (\<exists>l. stat_line e (pid q) = Some l \<and> length (tokens l) \<le> 23)) \<longrightarrow>
                utime q = 0 \<and> stime q = 0 \<and> rss q = 0 \<and> vsize q = 0 \<and> cmd q = []
                \<and> cpu_percent q = 0 \<and> mem_percent q = 0)"
proof -
  from sample_proc_Inr [OF assms] obtain p c mp where
    r: "read_proc e n = Inr p" and
    c: "cpu_pct (delta (utime p + stime p) (prev_of mm n))
          (total_delta (total_jiffies e) (prev_total_jiffies s)) = Inr c" and
    mp: "mem_pct (rss p) (page_size s) (mem_total_kb e) = Inr mp" and
    ps': "ps' = ps @ [p\<lparr>cpu_percent := c, mem_percent := mp\<rparr>]"
    by blast
  let ?q = "p\<lparr>cpu_percent := c, mem_percent := mp\<rparr>"
  have pidq: "pid ?q = n" using read_proc_pid [OF r] by simp
  have "utime ?q = 0 \<and> stime ?q = 0 \<and> rss ?q = 0 \<and> vsize ?q = 0 \<and> cmd ?q = []
        \<and> cpu_percent ?q = 0 \<and> mem_percent ?q = 0"
    if un: "stat_line e (pid ?q) = None
            \<or> (\<exists>l. stat_line e (pid ?q) = Some l \<and> length (tokens l) \<le> 23)"
  proof -
    from un pidq have "stat_line e n = None
            \<or> (\<exists>l. stat_line e n = Some l \<and> length (tokens l) \<le> 23)" by simp
    from read_proc_unreadable [OF this] r
    have z: "utime p = 0" "stime p = 0" "rss p = 0" "vsize p = 0" "cmd p = []" by auto
    from c have "c = 0" by (simp add: z delta_of_zero cpu_pct_zero_delta)
    moreover from mp have "mp = 0" by (simp add: z mem_pct_of_zero)
    ultimately show ?thesis using z by simp
  qed
  with ps' show ?thesis by blast
qed


lemma sample_length: "sample e s = Inr (procs, s') \<Longrightarrow> length procs = length (pids e)"
  using sample_shape(1) [of e s procs s'] by (metis length_map)

lemma sample_member:
  assumes "sample e s = Inr (procs, s')" and "n \<in> set (pids e)"
  shows "\<exists>p\<in>set procs. pid p = n"
proof -
  from assms(2) sample_shape(1) [OF assms(1)] have "n \<in> set (map pid procs)" by simp
  then show ?thesis by auto
qed

lemma sample_proc_ticks:
  assumes "sample_proc e s (ps, mm) n = Inr (ps', mm')"
  shows "\<exists>q. ps' = ps @ [q]
           \<and> (\<exists>p. read_proc e (pid q) = Inr p \<and> utime q = utime p \<and> stime q = stime p)"
proof -
  from sample_proc_Inr [OF assms] obtain p c mp where
    r: "read_proc e n = Inr p" and
    ps': "ps' = ps @ [p\<lparr>cpu_percent := c, mem_percent := mp\<rparr>]"
    by blast
  let ?q = "p\<lparr>cpu_percent := c, mem_percent := mp\<rparr>"
  have "pid ?q = n" using read_proc_pid [OF r] by simp
  with r have "\<exists>p'. read_proc e (pid ?q) = Inr p' \<and> utime ?q = utime p' \<and> stime ?q = stime p'"
    by simp
  with ps' show ?thesis by blast
qed

lemma sample_loop_map:
  assumes "sample_loop e s (procs0, m0) ns = Inr (procs, m)"
  shows "\<forall>n\<in>set ns. \<exists>p. read_proc e n = Inr p \<and> m n = Some (utime p + stime p)"
  using assms
proof (induction ns arbitrary: procs0 m0)
  case Nil
  then show ?case by simp
next
  case (Cons n ns)
  from Cons.prems obtain procs1 m1 where
    one: "sample_proc e s (procs0, m0) n = Inr (procs1, m1)" and
    rest: "sample_loop e s (procs1, m1) ns = Inr (procs, m)"
    by (auto split: sum.splits)
  from sample_proc_Inr [OF one] obtain p where
    p: "read_proc e n = Inr p" "m1 = m0(n \<mapsto> utime p + stime p)"
    by blast
  note ih = Cons.IH [OF rest]
  have "\<exists>p. read_proc e n = Inr p \<and> m n = Some (utime p + stime p)"
  proof (cases "n \<in> set ns")
    case True
    with ih show ?thesis by blast
  next
    case False
    from sample_loop_shape [OF rest] have "\<forall>k. k \<notin> set ns \<longrightarrow> m k = m1 k" by blast
    with False have "m n = m1 n" by blast
    with p show ?thesis by simp
  qed
  with ih show ?case by simp
qed

lemma sample_map_entries:
  assumes "sample e s = Inr (procs, s')"
  shows "\<forall>q\<in>set procs. prev_proc_jiffies s' (pid q) = Some (utime q + stime q)"
proof
  fix q assume q: "q \<in> set procs"
  from sample_unfold [OF assms] obtain m where
    loop: "sample_loop e s ([], prev_proc_jiffies s) (pids e) = Inr (procs, m)" and
    s': "s' = s\<lparr>prev_proc_jiffies := m, prev_total_jiffies := total_jiffies e\<rparr>"
    by blast
  have m: "prev_proc_jiffies s' = m" unfolding s' by simp
  have "\<forall>x\<in>set procs. \<exists>p. read_proc e (pid x) = Inr p \<and> utime x = utime p \<and> stime x = stime p"
    by (rule sample_all [OF assms]) (rule sample_proc_ticks)
  with q obtain p where p: "read_proc e (pid q) = Inr p" "utime q = utime p" "stime q = stime p"
    by blast
  from q sample_shape(1) [OF assms] have "pid q \<in> set (pids e)"
    by (metis image_eqI set_map)
  with sample_loop_map [OF loop] obtain p' where
    "read_proc e (pid q) = Inr p'" "m (pid q) = Some (utime p' + stime p')"
    by blast
  with p show "prev_proc_jiffies s' (pid q) = Some (utime q + stime q)"
    unfolding m by simp
qed

lemma delta_from_zero: "delta cur 0 = cur"
  by (simp add: delta_def)

lemma total_delta_value:
  "total_delta tj ptj = (if ptj < tj then tj - ptj else 0)"
  by (auto simp: total_delta_def)

lemma total_delta_pos: "0 < total_delta tj ptj \<longleftrightarrow> ptj < tj"
  by (auto simp: total_delta_def word_greater_zero_iff)

lemma sample_proc_entry:
  assumes "sample_proc e s (ps, mm) n = Inr (ps', mm')"
  shows "\<exists>q p. ps' = ps @ [q] \<and> pid q = n \<and> read_proc e n = Inr p
           \<and> utime q = utime p \<and> stime q = stime p
           \<and> mm' = mm(n \<mapsto> utime p + stime p)
           \<and> cpu_pct (delta (utime p + stime p) (prev_of mm n))
                (total_delta (total_jiffies e) (prev_total_jiffies s)) = Inr (cpu_percent q)"
proof -
  from sample_proc_Inr [OF assms] obtain p c mp where
    r: "read_proc e n = Inr p" and
    c: "cpu_pct (delta (utime p + stime p) (prev_of mm n))
          (total_delta (total_jiffies e) (prev_total_jiffies s)) = Inr c" and
    ps': "ps' = ps @ [p\<lparr>cpu_percent := c, mem_percent := mp\<rparr>]" and
    mm': "mm' = mm(n \<mapsto> utime p + stime p)"
    by blast
  let ?q = "p\<lparr>cpu_percent := c, mem_percent := mp\<rparr>"
  have "ps' = ps @ [?q] \<and> pid ?q = n \<and> read_proc e n = Inr p
           \<and> utime ?q = utime p \<and> stime ?q = stime p
           \<and> mm' = mm(n \<mapsto> utime p + stime p)
           \<and> cpu_pct (delta (utime p + stime p) (prev_of mm n))
                (total_delta (total_jiffies e) (prev_total_jiffies s)) = Inr (cpu_percent ?q)"
    using r c ps' mm' read_proc_pid [OF r] by simp
  then show ?thesis by (intro exI)
qed

lemma delta_same: "delta cur cur = 0"
  by (simp add: delta_def)

lemma sample_loop_cpu_any:
  assumes "sample_loop e s (procs0, m0) ns = Inr (procs, m)"
  shows "\<exists>new. procs = procs0 @ new
           \<and> (\<forall>q\<in>set new.
                 (\<exists>p. read_proc e (pid q) = Inr p \<and> utime q = utime p \<and> stime q = stime p)
                 \<and> (cpu_percent q = 0
                    \<or> cpu_pct (delta (utime q + stime q) (prev_of m0 (pid q)))
                         (total_delta (total_jiffies e) (prev_total_jiffies s))
                       = Inr (cpu_percent q)))"
  using assms
proof (induction ns arbitrary: procs0 m0)
  case Nil
  then show ?case by simp
next
  case (Cons n ns)
  let ?td = "total_delta (total_jiffies e) (prev_total_jiffies s)"
  from Cons.prems obtain procs1 m1 where
    one: "sample_proc e s (procs0, m0) n = Inr (procs1, m1)" and
    rest: "sample_loop e s (procs1, m1) ns = Inr (procs, m)"
    by (auto split: sum.splits)
  from sample_proc_entry [OF one] obtain q p where
    q: "procs1 = procs0 @ [q]" "pid q = n" "read_proc e n = Inr p"
       "utime q = utime p" "stime q = stime p" "m1 = m0(n \<mapsto> utime p + stime p)"
       "cpu_pct (delta (utime p + stime p) (prev_of m0 n)) ?td = Inr (cpu_percent q)"
    by blast
  from Cons.IH [OF rest] obtain new where
    new: "procs = procs1 @ new"
      "\<forall>x\<in>set new.
         (\<exists>p. read_proc e (pid x) = Inr p \<and> utime x = utime p \<and> stime x = stime p)
         \<and> (cpu_percent x = 0
            \<or> cpu_pct (delta (utime x + stime x) (prev_of m1 (pid x))) ?td = Inr (cpu_percent x))"
    by blast
  have later: "cpu_percent x = 0
      \<or> cpu_pct (delta (utime x + stime x) (prev_of m0 (pid x))) ?td = Inr (cpu_percent x)"
    if x: "x \<in> set new" for x
  proof (cases "pid x = n")
    case False
    then have "prev_of m1 (pid x) = prev_of m0 (pid x)" by (simp add: prev_of_def q(6))
    with new(2) x show ?thesis by auto
  next
    case True
    from new(2) x obtain p' where
      p': "read_proc e (pid x) = Inr p'" "utime x = utime p'" "stime x = stime p'" by blast
    with True q(3) have same: "utime x + stime x = utime p + stime p" by simp
    have prev: "prev_of m1 (pid x) = utime p + stime p" using True by (simp add: prev_of_def q(6))
    from new(2) x have "cpu_percent x = 0
        \<or> cpu_pct (delta (utime x + stime x) (prev_of m1 (pid x))) ?td = Inr (cpu_percent x)"
      by blast
    then have "cpu_percent x = 0"
      unfolding prev same delta_same cpu_pct_zero_delta by auto
    then show ?thesis by simp
  qed
  have first: "(\<exists>p. read_proc e (pid q) = Inr p \<and> utime q = utime p \<and> stime q = stime p)
      \<and> (cpu_percent q = 0
         \<or> cpu_pct (delta (utime q + stime q) (prev_of m0 (pid q))) ?td = Inr (cpu_percent q))"
    using q by simp
  show ?case
  proof (intro exI conjI)
    show "procs = procs0 @ (q # new)" using q(1) new(1) by simp
    show "\<forall>x\<in>set (q # new).
         (\<exists>p. read_proc e (pid x) = Inr p \<and> utime x = utime p \<and> stime x = stime p)
         \<and> (cpu_percent x = 0
            \<or> cpu_pct (delta (utime x + stime x) (prev_of m0 (pid x))) ?td = Inr (cpu_percent x))"
      using first new(2) later by simp
  qed
qed

lemma sample_cpu_any:
  assumes "sample e s = Inr (procs, s')"
  shows "\<forall>q\<in>set procs.
           cpu_percent q = 0
           \<or> cpu_pct (delta (utime q + stime q) (prev_of (prev_proc_jiffies s) (pid q)))
                (total_delta (total_jiffies e) (prev_total_jiffies s)) = Inr (cpu_percent q)"
proof -
  from sample_unfold [OF assms] obtain m where
    loop: "sample_loop e s ([], prev_proc_jiffies s) (pids e) = Inr (procs, m)"
    by blast
  from sample_loop_cpu_any [OF loop] show ?thesis by simp
qed

subsection \<open>The concrete runs, evaluated\<close>

lemma ex_env_sel [simp]:
  "total_jiffies (ex_env tj ns sl k) = tj"
  "mem_total_kb (ex_env tj ns sl k) = 8000"
  "pids (ex_env tj ns sl k) = ns"
  "stat_line (ex_env tj ns sl k) = sl"
  "rows (ex_env tj ns sl k) = 24"
  "ch (ex_env tj ns sl k) = k"
  "kill_result (ex_env tj ns sl k) = (\<lambda>n. 0)"
  by (simp_all add: ex_env_def)

lemma ex_state_sel [simp]:
  "highlight (ex_state h m) = h"
  "interval_s (ex_state h m) = 2"
  "sortmode (ex_state h m) = BY_CPU"
  "page_size (ex_state h m) = 4096"
  "prev_total_jiffies (ex_state h m) = 1000"
  "prev_proc_jiffies (ex_state h m) = m"
  by (simp_all add: ex_state_def init_state_def)

lemma init_state_ex: "init_state 4096 1000 = ex_state 0 Map.empty"
  by (simp add: ex_state_def init_state_def)

lemmas parse_defs = stoul_def stol_def sign_and_digits_def isspace_def isdigit_def
  digits_value_def ULONG_MAX_def LONG_MAX_def LONG_MIN_def strip_parens_def

lemma tokens_ex_stat_100:
  "tokens ex_stat_100 = [''7'', ''(bash)'', ''S'', ''1'', ''7'', ''7'', ''0'', ''-1'', ''4194304'',
     ''100'', ''0'', ''0'', ''0'', ''60'', ''40'', ''0'', ''0'', ''20'', ''0'', ''1'', ''0'', ''100'',
     ''4096000'', ''500'', ''18446744073709551615'']"
  by (simp add: ex_stat_100_def tokens_def isspace_def)

lemma tokens_ex_stat_150:
  "tokens ex_stat_150 = [''7'', ''(bash)'', ''S'', ''1'', ''7'', ''7'', ''0'', ''-1'', ''4194304'',
     ''100'', ''0'', ''0'', ''0'', ''90'', ''60'', ''0'', ''0'', ''20'', ''0'', ''1'', ''0'', ''100'',
     ''4096000'', ''500'', ''18446744073709551615'']"
  by (simp add: ex_stat_150_def tokens_def isspace_def)

lemma tokens_ex_stat_10:
  "tokens ex_stat_10 = [''7'', ''(sh)'', ''R'', ''1'', ''7'', ''7'', ''0'', ''-1'', ''4194304'',
     ''100'', ''0'', ''0'', ''0'', ''6'', ''4'', ''0'', ''0'', ''20'', ''0'', ''1'', ''0'', ''900'',
     ''4096000'', ''500'', ''18446744073709551615'']"
  by (simp add: ex_stat_10_def tokens_def isspace_def)

lemma read_proc_ex_100:
  "sl n = Some ex_stat_100 \<Longrightarrow>
     read_proc (ex_env tj ns sl k) n = Inr (ex_proc n ''bash'' 60 40 0 0)"
  by (simp add: read_proc_def read_stat_def read_status_def uid_to_user_def ex_env_def
      ex_proc_def tokens_ex_stat_100 parse_defs)

lemma read_proc_ex_150:
  "sl n = Some ex_stat_150 \<Longrightarrow>
     read_proc (ex_env tj ns sl k) n = Inr (ex_proc n ''bash'' 90 60 0 0)"
  by (simp add: read_proc_def read_stat_def read_status_def uid_to_user_def ex_env_def
      ex_proc_def tokens_ex_stat_150 parse_defs)

lemma read_proc_ex_10:
  "sl n = Some ex_stat_10 \<Longrightarrow>
     read_proc (ex_env tj ns sl k) n = Inr (ex_proc n ''sh'' 6 4 0 0)"
  by (simp add: read_proc_def read_stat_def read_status_def uid_to_user_def ex_env_def
      ex_proc_def tokens_ex_stat_10 parse_defs)

lemma read_proc_ex_gone:
  "sl n = None \<Longrightarrow>
     read_proc (ex_env tj ns sl k) n =
       Inr \<lparr>pid = n, uid = 0, user = ''root'', cmd = [], utime = 0, stime = 0, rss = 0,
            vsize = 0, cpu_percent = 0, mem_percent = 0\<rparr>"
  by (simp add: read_proc_def read_stat_def read_status_def uid_to_user_def ex_env_def)

lemmas derive_defs = sample_def sample_proc_def cpu_pct_def mem_pct_def double_div_def
  in_long_def LONG_MAX_def LONG_MIN_def delta_def total_delta_def prev_of_def ex_proc_def
  init_state_def Let_def

lemma sample_ex_first:
  "sample (ex_env 1000 [7] (\<lambda>n. Some ex_stat_100) k) (ex_state 0 Map.empty) =
     Inr ([ex_proc 7 ''bash'' 60 40 0 25],
          (ex_state 0 [7 \<mapsto> 100])\<lparr>prev_total_jiffies := 1000\<rparr>)"
  by (simp add: derive_defs read_proc_ex_100 ex_state_def)

lemma sample_ex_first_late:
  "sample (ex_env 1004 [7] (\<lambda>n. Some ex_stat_100) k) (ex_state 0 Map.empty) =
     Inr ([ex_proc 7 ''bash'' 60 40 2500 25],
          (ex_state 0 [7 \<mapsto> 100])\<lparr>prev_total_jiffies := 1004\<rparr>)"
  by (simp add: derive_defs read_proc_ex_100 ex_state_def)

lemma sample_ex_second:
  "sample (ex_env 1200 [7] (\<lambda>n. Some ex_stat_150) k) (ex_state 0 [7 \<mapsto> 100]) =
     Inr ([ex_proc 7 ''bash'' 90 60 25 25],
          (ex_state 0 [7 \<mapsto> 150])\<lparr>prev_total_jiffies := 1200\<rparr>)"
  by (simp add: derive_defs read_proc_ex_150 ex_state_def)

lemma sample_ex_reuse:
  "sample (ex_env 1200 [7] (\<lambda>n. Some ex_stat_10) k) (ex_state 0 [7 \<mapsto> 1000]) =
     Inr ([ex_proc 7 ''sh'' 6 4 0 25],
          (ex_state 0 [7 \<mapsto> 10])\<lparr>prev_total_jiffies := 1200\<rparr>)"
  by (simp add: derive_defs read_proc_ex_10 ex_state_def)

lemma sample_ex_stalled:
  "sample (ex_env 1000 [7] (\<lambda>n. Some ex_stat_150) k) (ex_state 0 [7 \<mapsto> 100]) =
     Inr ([ex_proc 7 ''bash'' 90 60 0 25],
          (ex_state 0 [7 \<mapsto> 150])\<lparr>prev_total_jiffies := 1000\<rparr>)"
  by (simp add: derive_defs read_proc_ex_150 ex_state_def)

lemma sample_ex_other_pid:
  "sample (ex_env 1200 [7] (\<lambda>n. Some ex_stat_150) k) (ex_state 0 [5 \<mapsto> 100]) =
     Inr ([ex_proc 7 ''bash'' 90 60 75 25],
          (ex_state 0 [5 \<mapsto> 100, 7 \<mapsto> 150])\<lparr>prev_total_jiffies := 1200\<rparr>)"
  by (simp add: derive_defs read_proc_ex_150 ex_state_def)

lemma sample_ex_gone:
  "sample (ex_env 1200 [7] (\<lambda>n. None) k) (ex_state 0 [7 \<mapsto> 100]) =
     Inr ([\<lparr>pid = 7, uid = 0, user = ''root'', cmd = [], utime = 0, stime = 0, rss = 0,
            vsize = 0, cpu_percent = 0, mem_percent = 0\<rparr>],
          (ex_state 0 [7 \<mapsto> 0])\<lparr>prev_total_jiffies := 1200\<rparr>)"
  by (simp add: derive_defs read_proc_ex_gone ex_state_def)

lemma sample_ex_first_5:
  "sample (ex_env 1000 [5] (\<lambda>n. Some ex_stat_100) k) (ex_state 0 Map.empty) =
     Inr ([ex_proc 5 ''bash'' 60 40 0 25], ex_state 0 [5 \<mapsto> 100])"
  by (simp add: derive_defs read_proc_ex_100 ex_state_def)

lemma sample_ex_three:
  "sample (ex_env 1000 [1, 2, 3] (\<lambda>n. Some ex_stat_100) k) (ex_state h Map.empty) =
     Inr ([ex_proc 1 ''bash'' 60 40 0 25, ex_proc 2 ''bash'' 60 40 0 25,
           ex_proc 3 ''bash'' 60 40 0 25],
          ex_state h [1 \<mapsto> 100, 2 \<mapsto> 100, 3 \<mapsto> 100])"
  by (simp add: derive_defs read_proc_ex_100 ex_state_def)

lemma upt_3: "[0 ..< 3] = [0, 1, 2]"
  by (simp add: upt_rec)

subsection \<open>The key handler\<close>

lemma in_int_Inr: "in_int v = Inr w \<longleftrightarrow> w = v \<and> INT_MIN \<le> v \<and> v \<le> INT_MAX"
  by (auto simp: in_int_def)

lemma in_int_Inl: "in_int v = Inl f \<Longrightarrow> f = SignedOverflow"
  by (auto simp: in_int_def split: if_splits)

lemma at_index_Inr: "0 \<le> i \<Longrightarrow> i < int (length xs) \<Longrightarrow> at_index xs i = Inr (xs ! nat i)"
  by (simp add: at_index_def)

text \<open>The keys that the handler distinguishes.\<close>

lemma handle_key_ERR:
  "ch e = ERR \<Longrightarrow> handle_key e s procs = Inr (Continue s None)"
  by (simp add: handle_key_def)

lemma handle_key_q:
  "ch e = CH (CHR ''q'') \<Longrightarrow> handle_key e s procs = Inr Quit"
  by (simp add: handle_key_def)

lemma handle_key_UP:
  "ch e = KEY_UP \<Longrightarrow> handle_key e s procs =
     bind_fault (in_int (highlight s - 1)) (\<lambda>v. Inr (Continue (s\<lparr>highlight := max 0 v\<rparr>) None))"
  by (cases "in_int (highlight s - 1)") (simp_all add: handle_key_def)

lemma handle_key_DOWN:
  "ch e = KEY_DOWN \<Longrightarrow> handle_key e s procs =
     bind_fault (in_int (int (length procs) - 1)) (\<lambda>a.
     bind_fault (in_int (highlight s + 1)) (\<lambda>b.
       Inr (Continue (s\<lparr>highlight := min a b\<rparr>) None)))"
  by (cases "in_int (int (length procs) - 1)"; cases "in_int (highlight s + 1)")
     (simp_all add: handle_key_def)

lemma handle_key_plus:
  "ch e = CH (CHR ''+'') \<Longrightarrow> handle_key e s procs =
     bind_fault (in_int (interval_s s - 1)) (\<lambda>v. Inr (Continue (s\<lparr>interval_s := max 1 v\<rparr>) None))"
  by (cases "in_int (interval_s s - 1)") (simp_all add: handle_key_def)

lemma handle_key_minus:
  "ch e = CH (CHR ''-'') \<Longrightarrow> handle_key e s procs =
     bind_fault (in_int (interval_s s + 1)) (\<lambda>v. Inr (Continue (s\<lparr>interval_s := v\<rparr>) None))"
  by (cases "in_int (interval_s s + 1)") (simp_all add: handle_key_def)

lemma handle_key_c:
  "ch e = CH (CHR ''c'') \<Longrightarrow> handle_key e s procs = Inr (Continue (s\<lparr>sortmode := BY_CPU\<rparr>) None)"
  by (simp add: handle_key_def)

lemma handle_key_m:
  "ch e = CH (CHR ''m'') \<Longrightarrow> handle_key e s procs = Inr (Continue (s\<lparr>sortmode := BY_MEM\<rparr>) None)"
  by (simp add: handle_key_def)

lemma handle_key_p:
  "ch e = CH (CHR ''p'') \<Longrightarrow> handle_key e s procs = Inr (Continue (s\<lparr>sortmode := BY_PID\<rparr>) None)"
  by (simp add: handle_key_def)

lemma handle_key_k:
  "ch e = CH (CHR ''k'') \<Longrightarrow> handle_key e s procs =
     (if 0 \<le> highlight s \<and> highlight s < int (length procs)
      then Inr (Continue s
                  (Some (if kill_result e (pid (procs ! nat (highlight s))) = 0
                         then Killed (pid (procs ! nat (highlight s)))
                         else FailedToKill (pid (procs ! nat (highlight s))))))
      else Inr (Continue s None))"
  by (simp add: handle_key_def at_index_def)

lemma handle_key_other:
  assumes "ch e \<noteq> ERR" "ch e \<noteq> KEY_UP" "ch e \<noteq> KEY_DOWN"
    "ch e \<noteq> CH (CHR ''q'')" "ch e \<noteq> CH (CHR ''c'')" "ch e \<noteq> CH (CHR ''m'')"
    "ch e \<noteq> CH (CHR ''p'')" "ch e \<noteq> CH (CHR ''+'')" "ch e \<noteq> CH (CHR ''-'')"
    "ch e \<noteq> CH (CHR ''k'')"
  shows "handle_key e s procs = Inr (Continue s None)"
  using assms by (simp add: handle_key_def)

lemma handle_key_Continue:
  assumes hk: "handle_key e s procs = Inr (Continue s' msg)"
  shows "highlight s' =
           (if ch e = KEY_UP then max 0 (highlight s - 1)
            else if ch e = KEY_DOWN then min (int (length procs) - 1) (highlight s + 1)
            else highlight s)
       \<and> interval_s s' =
           (if ch e = CH (CHR ''+'') then max 1 (interval_s s - 1)
            else if ch e = CH (CHR ''-'') then interval_s s + 1
            else interval_s s)
       \<and> sortmode s' =
           (if ch e = CH (CHR ''c'') then BY_CPU
            else if ch e = CH (CHR ''m'') then BY_MEM
            else if ch e = CH (CHR ''p'') then BY_PID
            else sortmode s)
       \<and> page_size s' = page_size s
       \<and> prev_total_jiffies s' = prev_total_jiffies s
       \<and> prev_proc_jiffies s' = prev_proc_jiffies s
       \<and> msg =
           (if ch e = CH (CHR ''k'') \<and> 0 \<le> highlight s \<and> highlight s < int (length procs)
            then Some (if kill_result e (pid (procs ! nat (highlight s))) = 0
                       then Killed (pid (procs ! nat (highlight s)))
                       else FailedToKill (pid (procs ! nat (highlight s))))
            else None)"
proof -
  consider "ch e = ERR" | "ch e = KEY_UP" | "ch e = KEY_DOWN" | "ch e = CH (CHR ''q'')"
    | "ch e = CH (CHR ''c'')" | "ch e = CH (CHR ''m'')" | "ch e = CH (CHR ''p'')"
    | "ch e = CH (CHR ''+'')" | "ch e = CH (CHR ''-'')" | "ch e = CH (CHR ''k'')"
    | "ch e \<noteq> ERR" "ch e \<noteq> KEY_UP" "ch e \<noteq> KEY_DOWN"
      "ch e \<noteq> CH (CHR ''q'')" "ch e \<noteq> CH (CHR ''c'')" "ch e \<noteq> CH (CHR ''m'')"
      "ch e \<noteq> CH (CHR ''p'')" "ch e \<noteq> CH (CHR ''+'')" "ch e \<noteq> CH (CHR ''-'')"
      "ch e \<noteq> CH (CHR ''k'')"
    by blast
  then show ?thesis
  proof cases
    case 1
    with hk show ?thesis by (simp add: handle_key_ERR)
  next
    case 2
    with hk show ?thesis by (auto simp: handle_key_UP bind_fault_eq_Inr in_int_Inr)
  next
    case 3
    with hk show ?thesis by (auto simp: handle_key_DOWN bind_fault_eq_Inr in_int_Inr)
  next
    case 4
    with hk show ?thesis by (simp add: handle_key_q)
  next
    case 5
    with hk show ?thesis by (auto simp: handle_key_c)
  next
    case 6
    with hk show ?thesis by (auto simp: handle_key_m)
  next
    case 7
    with hk show ?thesis by (auto simp: handle_key_p)
  next
    case 8
    with hk show ?thesis by (auto simp: handle_key_plus bind_fault_eq_Inr in_int_Inr)
  next
    case 9
    with hk show ?thesis by (auto simp: handle_key_minus bind_fault_eq_Inr in_int_Inr)
  next
    case 10
    with hk show ?thesis by (auto simp: handle_key_k split: if_splits)
  next
    case 11
    with hk show ?thesis by (simp add: handle_key_other)
  qed
qed

lemma handle_key_faults:
  assumes hk: "handle_key e s procs = Inl f"
  shows "f = SignedOverflow"
proof -
  consider "ch e = ERR" | "ch e = KEY_UP" | "ch e = KEY_DOWN" | "ch e = CH (CHR ''q'')"
    | "ch e = CH (CHR ''c'')" | "ch e = CH (CHR ''m'')" | "ch e = CH (CHR ''p'')"
    | "ch e = CH (CHR ''+'')" | "ch e = CH (CHR ''-'')" | "ch e = CH (CHR ''k'')"
    | "ch e \<noteq> ERR" "ch e \<noteq> KEY_UP" "ch e \<noteq> KEY_DOWN"
      "ch e \<noteq> CH (CHR ''q'')" "ch e \<noteq> CH (CHR ''c'')" "ch e \<noteq> CH (CHR ''m'')"
      "ch e \<noteq> CH (CHR ''p'')" "ch e \<noteq> CH (CHR ''+'')" "ch e \<noteq> CH (CHR ''-'')"
      "ch e \<noteq> CH (CHR ''k'')"
    by blast
  then show ?thesis
  proof cases
    case 1
    with hk show ?thesis by (simp add: handle_key_ERR)
  next
    case 2
    with hk show ?thesis by (auto simp: handle_key_UP bind_fault_eq_Inl dest: in_int_Inl)
  next
    case 3
    with hk show ?thesis by (auto simp: handle_key_DOWN bind_fault_eq_Inl dest: in_int_Inl)
  next
    case 4
    with hk show ?thesis by (simp add: handle_key_q)
  next
    case 5
    with hk show ?thesis by (simp add: handle_key_c)
  next
    case 6
    with hk show ?thesis by (simp add: handle_key_m)
  next
    case 7
    with hk show ?thesis by (simp add: handle_key_p)
  next
    case 8
    with hk show ?thesis by (auto simp: handle_key_plus bind_fault_eq_Inl dest: in_int_Inl)
  next
    case 9
    with hk show ?thesis by (auto simp: handle_key_minus bind_fault_eq_Inl dest: in_int_Inl)
  next
    case 10
    with hk show ?thesis by (simp add: handle_key_k split: if_splits)
  next
    case 11
    with hk show ?thesis by (simp add: handle_key_other)
  qed
qed

subsection \<open>Iterations and reachable states\<close>

lemma iteration_Continue:
  assumes "iteration e s (Inr (frame, Continue s' msg))"
  shows "\<exists>procs s1 sorted_procs.
           sample e s = Inr (procs, s1) \<and> sort_procs (sortmode s1) procs sorted_procs
           \<and> handle_key e s1 sorted_procs = Inr (Continue s' msg)
           \<and> frame = render_rows (rows e) sorted_procs (highlight s1)"
  using assms by cases auto

lemma iteration_faults:
  assumes "iteration e s (Inl f)"
  shows "f = InvalidArgument \<or> f = OutOfRange \<or> f = SignedOverflow"
  using assms
proof cases
  case sample_fault
  then show ?thesis by (rule sample_faults)
next
  case (key_fault procs s1 sorted_procs)
  then show ?thesis using handle_key_faults [of e s1 sorted_procs f] by simp
qed

lemma reachable_interval: "reachable s \<Longrightarrow> 1 \<le> interval_s s"
proof (induction rule: reachable.induct)
  case (start ps j0)
  show ?case by (simp add: init_state_def)
next
  case (step s e frame s' msg)
  from iteration_Continue [OF step.hyps(2)] obtain procs s1 sorted_procs where
    smp: "sample e s = Inr (procs, s1)" and
    key: "handle_key e s1 sorted_procs = Inr (Continue s' msg)"
    by blast
  have "interval_s s1 = interval_s s" using sample_keeps(2) [OF smp] .
  with step.IH have "1 \<le> interval_s s1" by simp
  moreover have "interval_s s' =
           (if ch e = CH (CHR ''+'') then max 1 (interval_s s1 - 1)
            else if ch e = CH (CHR ''-'') then interval_s s1 + 1
            else interval_s s1)"
    using handle_key_Continue [OF key] by blast
  ultimately show ?case by (simp split: if_splits)
qed

lemma in_int_small: "- 2147483648 \<le> v \<Longrightarrow> v \<le> 2147483647 \<Longrightarrow> in_int v = Inr v"
  by (simp add: in_int_def INT_MIN_def INT_MAX_def)

subsection \<open>Sorting and rendering\<close>

lemma std_sort_exists:
  fixes k :: "'a \<Rightarrow> 'b :: linorder"
  shows "std_sort (\<lambda>a b. k a < k b) xs (sort_key k xs)"
proof -
  have "sorted (map k (sort_key k xs))" by (rule sorted_sort_key)
  then have "sorted_wrt (\<lambda>a b. \<not> k b < k a) (sort_key k xs)"
    by (simp add: sorted_map not_less)
  then show ?thesis by (simp add: std_sort_def)
qed

lemma std_sort_exists_desc:
  fixes k :: "'a \<Rightarrow> real"
  shows "std_sort (\<lambda>a b. k a > k b) xs (sort_key (\<lambda>a. - k a) xs)"
proof -
  have "sorted (map (\<lambda>a. - k a) (sort_key (\<lambda>a. - k a) xs))" by (rule sorted_sort_key)
  then have "sorted_wrt (\<lambda>a b. \<not> k b > k a) (sort_key (\<lambda>a. - k a) xs)"
    by (simp add: sorted_map not_less)
  then show ?thesis by (simp add: std_sort_def)
qed

lemma sort_procs_exists: "\<exists>sorted_procs. sort_procs sm procs sorted_procs"
proof (cases sm)
  case BY_CPU
  then show ?thesis using std_sort_exists_desc [of cpu_percent procs]
    by (auto simp: sort_procs_def)
next
  case BY_MEM
  then show ?thesis using std_sort_exists_desc [of mem_percent procs]
    by (auto simp: sort_procs_def)
next
  case BY_PID
  then show ?thesis using std_sort_exists [of pid procs]
    by (auto simp: sort_procs_def)
qed

lemma sort_procs_mset: "sort_procs sm procs sorted_procs \<Longrightarrow> mset sorted_procs = mset procs"
  by (auto simp: sort_procs_def std_sort_def split: if_splits)

lemma sort_procs_length: "sort_procs sm procs sorted_procs \<Longrightarrow> length sorted_procs = length procs"
  by (drule sort_procs_mset) (rule mset_eq_length)

lemma sort_procs_set: "sort_procs sm procs sorted_procs \<Longrightarrow> set sorted_procs = set procs"
  by (drule sort_procs_mset) (rule mset_eq_setD)

lemma idle17:
  "sort_procs BY_CPU (ex_idle [1, 2, 3, 4, 5, 6, 7, 8, 9, 10, 11, 12, 13, 14, 15, 16, 17])
        (ex_idle [9, 17, 16, 15, 14, 13, 12, 11, 10, 1, 8, 7, 6, 5, 4, 3, 2])"
proof -
  have "mset [9, 17, 16, 15, 14, 13, 12, 11, 10, 1, 8, 7, 6, 5, 4, 3, 2 :: int]
      = mset [1, 2, 3, 4, 5, 6, 7, 8, 9, 10, 11, 12, 13, 14, 15, 16, 17]"
    by (simp add: add_mset_commute)
  then have "mset (ex_idle [9, 17, 16, 15, 14, 13, 12, 11, 10, 1, 8, 7, 6, 5, 4, 3, 2])
      = mset (ex_idle [1, 2, 3, 4, 5, 6, 7, 8, 9, 10, 11, 12, 13, 14, 15, 16, 17])"
    unfolding ex_idle_def mset_map by (rule arg_cong)
  moreover have "sorted_wrt (\<lambda>a b. \<not> cpu_percent b > cpu_percent a) (ex_idle ns)" for ns
    by (simp add: ex_idle_def sorted_wrt_map ex_proc_def)
  ultimately show ?thesis by (simp add: sort_procs_def std_sort_def)
qed

lemma marks_render_rows:
  "map snd (render_rows rws procs h)
     = map (\<lambda>i. int i = h) [0 ..< nat (min (rws - 5) (int (length procs)))]"
  by (simp add: render_rows_def)

lemma iteration_ex_three:
  assumes "handle_key (ex_env 1000 [1, 2, 3] (\<lambda>n. Some ex_stat_100) k)
             (ex_state 9 [1 \<mapsto> 100, 2 \<mapsto> 100, 3 \<mapsto> 100])
             [ex_proc 1 ''bash'' 60 40 0 25, ex_proc 2 ''bash'' 60 40 0 25,
              ex_proc 3 ''bash'' 60 40 0 25] = Inr out"
  shows "iteration (ex_env 1000 [1, 2, 3] (\<lambda>n. Some ex_stat_100) k) (ex_state 9 Map.empty)
           (Inr (render_rows 24
                   [ex_proc 1 ''bash'' 60 40 0 25, ex_proc 2 ''bash'' 60 40 0 25,
                    ex_proc 3 ''bash'' 60 40 0 25] 9, out))"
proof -
  let ?e = "ex_env 1000 [1, 2, 3] (\<lambda>n. Some ex_stat_100) k"
  let ?s1 = "ex_state 9 [1 \<mapsto> 100, 2 \<mapsto> 100, 3 \<mapsto> 100]"
  let ?procs = "[ex_proc 1 ''bash'' 60 40 0 25, ex_proc 2 ''bash'' 60 40 0 25,
                 ex_proc 3 ''bash'' 60 40 0 25]"
  have srt: "sort_procs (sortmode ?s1) ?procs ?procs"
    by (simp add: sort_procs_def std_sort_def ex_proc_def)
  have "iteration ?e (ex_state 9 Map.empty)
          (Inr (render_rows (rows ?e) ?procs (highlight ?s1), out))"
    by (rule iteration.completed [OF sample_ex_three srt assms])
  then show ?thesis by simp
qed

subsection \<open>Claim C1: the first cycle\<close>

text \<open>
  Claim C1, amended. In the first cycle the map of previous ticks is empty, every previous
  count is taken as 0 and the delta of a process is all the ticks it has used since it
  started. Its \<^verbatim>\<open>cpu_percent\<close> is therefore 0 when the total of the jiffies has not grown
  since the reading before the loop, and 100 times its ticks over the growth of the total
  otherwise (for distinct pids). The empty map causes no fault: the sampling never ends
  in a division by zero or an access out of bounds.
\<close>

theorem first_cycle_cpu_percent:
  "sample e (init_state ps j0) \<noteq> Inl DivisionByZero
   \<and> sample e (init_state ps j0) \<noteq> Inl IndexOutOfBounds
   \<and> (total_jiffies e \<le> j0 \<longrightarrow> sample e (init_state ps j0) = Inr (procs, s') \<longrightarrow>
        (\<forall>p\<in>set procs. cpu_percent p = 0))
   \<and> (distinct (pids e) \<longrightarrow> sample e (init_state ps j0) = Inr (procs, s') \<longrightarrow>
        (\<forall>p\<in>set procs.
           cpu_percent p =
             (if j0 < total_jiffies e
              then 100 * real (unat (utime p + stime p)) / real (unat (total_jiffies e - j0))
              else 0)))"
proof (intro conjI impI)
  show "sample e (init_state ps j0) \<noteq> Inl DivisionByZero"
    using sample_faults [of e "init_state ps j0" DivisionByZero] by auto
  show "sample e (init_state ps j0) \<noteq> Inl IndexOutOfBounds"
    using sample_faults [of e "init_state ps j0" IndexOutOfBounds] by auto
next
  assume "total_jiffies e \<le> j0" and smp: "sample e (init_state ps j0) = Inr (procs, s')"
  then have "total_jiffies e \<le> prev_total_jiffies (init_state ps j0)"
    by (simp add: init_state_def)
  from sample_zero_total [OF this smp] show "\<forall>p\<in>set procs. cpu_percent p = 0" .
next
  assume dist: "distinct (pids e)" and smp: "sample e (init_state ps j0) = Inr (procs, s')"
  show "\<forall>p\<in>set procs.
           cpu_percent p =
             (if j0 < total_jiffies e
              then 100 * real (unat (utime p + stime p)) / real (unat (total_jiffies e - j0))
              else 0)"
  proof
    fix p assume "p \<in> set procs"
    with sample_cpu [OF smp dist]
    have "cpu_pct (delta (utime p + stime p) (prev_of (prev_proc_jiffies (init_state ps j0)) (pid p)))
            (total_delta (total_jiffies e) (prev_total_jiffies (init_state ps j0)))
          = Inr (cpu_percent p)"
      by blast
    moreover have "prev_of (prev_proc_jiffies (init_state ps j0)) (pid p) = 0"
      by (simp add: prev_of_def init_state_def)
    moreover have "prev_total_jiffies (init_state ps j0) = j0"
      by (simp add: init_state_def)
    ultimately have "cpu_pct (utime p + stime p) (total_delta (total_jiffies e) j0)
          = Inr (cpu_percent p)"
      by (simp add: delta_from_zero)
    then show "cpu_percent p =
             (if j0 < total_jiffies e
              then 100 * real (unat (utime p + stime p)) / real (unat (total_jiffies e - j0))
              else 0)"
      unfolding cpu_pct_value total_delta_pos
      by (simp add: total_delta_value del: of_nat_unat split: if_splits)
  qed
qed

text \<open>With the total still at 1000 in the first cycle the process gets 0 percent.\<close>

theorem first_cycle_cpu_percent_witness:
  "(1000 :: ulong) \<le> 1000 \<and> distinct [7 :: int]
   \<and> sample (ex_env 1000 [7] (\<lambda>n. Some ex_stat_100) ERR) (init_state 4096 1000)
       = Inr ([ex_proc 7 ''bash'' 60 40 0 25], (ex_state 0 [7 \<mapsto> 100])\<lparr>prev_total_jiffies := 1000\<rparr>)
   \<and> cpu_percent (ex_proc 7 ''bash'' 60 40 0 25) = 0"
  using first_cycle_cpu_percent
    [of "ex_env 1000 [7] (\<lambda>n. Some ex_stat_100) ERR" 4096 1000
        "[ex_proc 7 ''bash'' 60 40 0 25]" "(ex_state 0 [7 \<mapsto> 100])\<lparr>prev_total_jiffies := 1000\<rparr>"]
    sample_ex_first [of ERR]
  by (simp add: init_state_ex ex_proc_def)

text \<open>Four jiffies pass between the reading before the loop and the first cycle; the
  process has used 100 ticks since it started: 2500 percent.\<close>

theorem first_cycle_cpu_percent_not_zero:
  "prev_proc_jiffies (init_state 4096 1000) = Map.empty
   \<and> sample (ex_env 1004 [7] (\<lambda>n. Some ex_stat_100) ERR) (init_state 4096 1000)
       = Inr ([ex_proc 7 ''bash'' 60 40 2500 25], (ex_state 0 [7 \<mapsto> 100])\<lparr>prev_total_jiffies := 1004\<rparr>)
   \<and> cpu_percent (ex_proc 7 ''bash'' 60 40 2500 25) = 2500"
  using sample_ex_first_late [of ERR]
  by (simp add: init_state_ex ex_proc_def)

subsection \<open>Claim C2: the map of previous ticks\<close>

text \<open>
  Claim C2, amended. The map is never cleared. After a sampling the processes are those
  of the pids listed, in that order; the keys of the map are the keys it had before
  together with the pids of this cycle; the entries of other pids are unchanged; and the
  entry of every process sampled holds its ticks. The key handler leaves the map as it
  is, so the same holds for the keys after a whole iteration.
\<close>

theorem tick_map_only_grows:
  "(sample e s = Inr (procs, s1) \<longrightarrow>
      map pid procs = pids e
      \<and> dom (prev_proc_jiffies s1) = dom (prev_proc_jiffies s) \<union> set (pids e)
      \<and> (\<forall>k. k \<notin> set (pids e) \<longrightarrow> prev_proc_jiffies s1 k = prev_proc_jiffies s k)
      \<and> (\<forall>p\<in>set procs. prev_proc_jiffies s1 (pid p) = Some (utime p + stime p)))
   \<and> (iteration e s (Inr (frame, Continue s2 msg)) \<longrightarrow>
      dom (prev_proc_jiffies s2) = dom (prev_proc_jiffies s) \<union> set (pids e))"
proof (intro conjI impI)
  assume smp: "sample e s = Inr (procs, s1)"
  show "map pid procs = pids e" by (rule sample_shape(1) [OF smp])
  show "dom (prev_proc_jiffies s1) = dom (prev_proc_jiffies s) \<union> set (pids e)"
    by (rule sample_shape(2) [OF smp])
  show "\<forall>k. k \<notin> set (pids e) \<longrightarrow> prev_proc_jiffies s1 k = prev_proc_jiffies s k"
    by (rule sample_shape(3) [OF smp])
  show "\<forall>p\<in>set procs. prev_proc_jiffies s1 (pid p) = Some (utime p + stime p)"
    by (rule sample_map_entries [OF smp])
next
  assume "iteration e s (Inr (frame, Continue s2 msg))"
  from iteration_Continue [OF this] obtain procs' s1' sorted_procs where
    smp: "sample e s = Inr (procs', s1')" and
    key: "handle_key e s1' sorted_procs = Inr (Continue s2 msg)"
    by blast
  from handle_key_Continue [OF key] have "prev_proc_jiffies s2 = prev_proc_jiffies s1'" by blast
  with sample_shape(2) [OF smp]
  show "dom (prev_proc_jiffies s2) = dom (prev_proc_jiffies s) \<union> set (pids e)" by simp
qed

text \<open>After a cycle that saw pid 5, a cycle that sees only pid 7 leaves both in the map.\<close>

theorem tick_map_only_grows_witness:
  "sample (ex_env 1200 [7] (\<lambda>n. Some ex_stat_150) ERR) (ex_state 0 [5 \<mapsto> 100])
     = Inr ([ex_proc 7 ''bash'' 90 60 75 25],
            (ex_state 0 [5 \<mapsto> 100, 7 \<mapsto> 150])\<lparr>prev_total_jiffies := 1200\<rparr>)
   \<and> map pid [ex_proc 7 ''bash'' 90 60 75 25] = [7]
   \<and> dom (prev_proc_jiffies ((ex_state 0 [5 \<mapsto> 100, 7 \<mapsto> 150])\<lparr>prev_total_jiffies := 1200\<rparr>))
       = dom (prev_proc_jiffies (ex_state 0 [5 \<mapsto> 100])) \<union> {7}
   \<and> prev_proc_jiffies ((ex_state 0 [5 \<mapsto> 100, 7 \<mapsto> 150])\<lparr>prev_total_jiffies := 1200\<rparr>) 5
       = Some 100
   \<and> prev_proc_jiffies ((ex_state 0 [5 \<mapsto> 100, 7 \<mapsto> 150])\<lparr>prev_total_jiffies := 1200\<rparr>) 7
       = Some 150
   \<and> iteration (ex_env 1200 [7] (\<lambda>n. Some ex_stat_150) ERR) (ex_state 0 [5 \<mapsto> 100])
        (Inr (render_rows 24 [ex_proc 7 ''bash'' 90 60 75 25] 0,
              Continue ((ex_state 0 [5 \<mapsto> 100, 7 \<mapsto> 150])\<lparr>prev_total_jiffies := 1200\<rparr>) None))"
proof -
  let ?e = "ex_env 1200 [7] (\<lambda>n. Some ex_stat_150) ERR"
  let ?s = "ex_state 0 [5 \<mapsto> 100]"
  let ?s1 = "(ex_state 0 [5 \<mapsto> 100, 7 \<mapsto> 150])\<lparr>prev_total_jiffies := 1200\<rparr>"
  let ?procs = "[ex_proc 7 ''bash'' 90 60 75 25]"
  have srt: "sort_procs (sortmode ?s1) ?procs ?procs"
    by (simp add: sort_procs_def std_sort_def)
  have key: "handle_key ?e ?s1 ?procs = Inr (Continue ?s1 None)"
    by (simp add: handle_key_ERR)
  have it: "iteration ?e ?s (Inr (render_rows (rows ?e) ?procs (highlight ?s1), Continue ?s1 None))"
    by (rule iteration.completed [OF sample_ex_other_pid [of ERR] srt key])
  from tick_map_only_grows
    [of ?e ?s ?procs ?s1 "render_rows (rows ?e) ?procs (highlight ?s1)" ?s1 None]
    sample_ex_other_pid [of ERR] it
  show ?thesis by (simp add: ex_proc_def)
qed

text \<open>Pid 5 is sampled in the first cycle and is gone in the second, which samples pid 7
  only: the map then holds both pids.\<close>

theorem tick_map_keeps_stale_pids:
  "sample (ex_env 1000 [5] (\<lambda>n. Some ex_stat_100) ERR) (init_state 4096 1000)
     = Inr ([ex_proc 5 ''bash'' 60 40 0 25], ex_state 0 [5 \<mapsto> 100])
   \<and> sample (ex_env 1200 [7] (\<lambda>n. Some ex_stat_150) ERR) (ex_state 0 [5 \<mapsto> 100])
     = Inr ([ex_proc 7 ''bash'' 90 60 75 25],
            (ex_state 0 [5 \<mapsto> 100, 7 \<mapsto> 150])\<lparr>prev_total_jiffies := 1200\<rparr>)
   \<and> map pid [ex_proc 7 ''bash'' 90 60 75 25] = [7]
   \<and> dom (prev_proc_jiffies ((ex_state 0 [5 \<mapsto> 100, 7 \<mapsto> 150])\<lparr>prev_total_jiffies := 1200\<rparr>))
       = {5, 7}"
  using sample_ex_first_5 [of ERR] sample_ex_other_pid [of ERR]
  by (auto simp: init_state_ex ex_proc_def)

subsection \<open>Claim C3: the cursor\<close>

text \<open>
  Claim C3, amended. Only the keys up and down change the cursor: up sets it to the
  larger of 0 and the cursor less 1, down to the smaller of the length less 1 and the
  cursor plus 1. An iteration with another key or with none leaves it as it was, also when
  it is beyond the end of the list; the rows are rendered with the cursor the iteration
  started with, so that row \<open>i\<close> is shown as selected exactly when \<open>i\<close> is that cursor.
\<close>

theorem cursor_moves_only_with_keys:
  "iteration e s (Inr (frame, Continue s' msg)) \<longrightarrow>
     highlight s' =
       (if ch e = KEY_UP then max 0 (highlight s - 1)
        else if ch e = KEY_DOWN then min (int (length (pids e)) - 1) (highlight s + 1)
        else highlight s)
     \<and> map snd frame
         = map (\<lambda>i. int i = highlight s) [0 ..< nat (min (rows e - 5) (int (length (pids e))))]"
proof
  assume "iteration e s (Inr (frame, Continue s' msg))"
  from iteration_Continue [OF this] obtain procs s1 sorted_procs where
    smp: "sample e s = Inr (procs, s1)" and
    srt: "sort_procs (sortmode s1) procs sorted_procs" and
    key: "handle_key e s1 sorted_procs = Inr (Continue s' msg)" and
    frame: "frame = render_rows (rows e) sorted_procs (highlight s1)"
    by blast
  have len: "length sorted_procs = length (pids e)"
    using sort_procs_length [OF srt] sample_length [OF smp] by simp
  have h1: "highlight s1 = highlight s" by (rule sample_keeps(1) [OF smp])
  from handle_key_Continue [OF key]
  have "highlight s' =
           (if ch e = KEY_UP then max 0 (highlight s1 - 1)
            else if ch e = KEY_DOWN then min (int (length sorted_procs) - 1) (highlight s1 + 1)
            else highlight s1)"
    by blast
  then have a: "highlight s' =
       (if ch e = KEY_UP then max 0 (highlight s - 1)
        else if ch e = KEY_DOWN then min (int (length (pids e)) - 1) (highlight s + 1)
        else highlight s)"
    unfolding h1 len .
  have b: "map snd frame
         = map (\<lambda>i. int i = highlight s) [0 ..< nat (min (rows e - 5) (int (length (pids e))))]"
    unfolding frame marks_render_rows h1 len ..
  from a b show "highlight s' =
       (if ch e = KEY_UP then max 0 (highlight s - 1)
        else if ch e = KEY_DOWN then min (int (length (pids e)) - 1) (highlight s + 1)
        else highlight s)
     \<and> map snd frame
         = map (\<lambda>i. int i = highlight s) [0 ..< nat (min (rows e - 5) (int (length (pids e))))]"
    by (rule conjI)
qed

text \<open>The cursor is at 9 and the cycle has three processes. With the key down the cursor
  becomes 2.\<close>

theorem cursor_moves_only_with_keys_witness:
  "iteration (ex_env 1000 [1, 2, 3] (\<lambda>n. Some ex_stat_100) KEY_DOWN) (ex_state 9 Map.empty)
     (Inr (render_rows 24
             [ex_proc 1 ''bash'' 60 40 0 25, ex_proc 2 ''bash'' 60 40 0 25,
              ex_proc 3 ''bash'' 60 40 0 25] 9,
           Continue (ex_state 2 [1 \<mapsto> 100, 2 \<mapsto> 100, 3 \<mapsto> 100]) None))
   \<and> highlight (ex_state 2 [1 \<mapsto> 100, 2 \<mapsto> 100, 3 \<mapsto> 100]) = 2
   \<and> map snd (render_rows 24
             [ex_proc 1 ''bash'' 60 40 0 25, ex_proc 2 ''bash'' 60 40 0 25,
              ex_proc 3 ''bash'' 60 40 0 25] 9) = [False, False, False]"
proof -
  have key: "handle_key (ex_env 1000 [1, 2, 3] (\<lambda>n. Some ex_stat_100) KEY_DOWN)
             (ex_state 9 [1 \<mapsto> 100, 2 \<mapsto> 100, 3 \<mapsto> 100])
             [ex_proc 1 ''bash'' 60 40 0 25, ex_proc 2 ''bash'' 60 40 0 25,
              ex_proc 3 ''bash'' 60 40 0 25]
           = Inr (Continue (ex_state 2 [1 \<mapsto> 100, 2 \<mapsto> 100, 3 \<mapsto> 100]) None)"
    by (simp add: handle_key_DOWN in_int_small ex_state_def)
  from cursor_moves_only_with_keys
    [of "ex_env 1000 [1, 2, 3] (\<lambda>n. Some ex_stat_100) KEY_DOWN" "ex_state 9 Map.empty"
        "render_rows 24
             [ex_proc 1 ''bash'' 60 40 0 25, ex_proc 2 ''bash'' 60 40 0 25,
              ex_proc 3 ''bash'' 60 40 0 25] 9"
        "ex_state 2 [1 \<mapsto> 100, 2 \<mapsto> 100, 3 \<mapsto> 100]" None]
    iteration_ex_three [OF key]
  show ?thesis by (simp add: upt_3)
qed

text \<open>The cursor is at 9 and the cycle has three processes. With no key the cursor is
  still 9 after the cycle, not 2, and none of the three rows was rendered as selected.\<close>

theorem cursor_not_clamped_without_key:
  "iteration (ex_env 1000 [1, 2, 3] (\<lambda>n. Some ex_stat_100) ERR) (ex_state 9 Map.empty)
     (Inr (render_rows 24
             [ex_proc 1 ''bash'' 60 40 0 25, ex_proc 2 ''bash'' 60 40 0 25,
              ex_proc 3 ''bash'' 60 40 0 25] 9,
           Continue (ex_state 9 [1 \<mapsto> 100, 2 \<mapsto> 100, 3 \<mapsto> 100]) None))
   \<and> highlight (ex_state 9 [1 \<mapsto> 100, 2 \<mapsto> 100, 3 \<mapsto> 100]) = 9
   \<and> map snd (render_rows 24
             [ex_proc 1 ''bash'' 60 40 0 25, ex_proc 2 ''bash'' 60 40 0 25,
              ex_proc 3 ''bash'' 60 40 0 25] 9) = [False, False, False]"
proof -
  have key: "handle_key (ex_env 1000 [1, 2, 3] (\<lambda>n. Some ex_stat_100) ERR)
             (ex_state 9 [1 \<mapsto> 100, 2 \<mapsto> 100, 3 \<mapsto> 100])
             [ex_proc 1 ''bash'' 60 40 0 25, ex_proc 2 ''bash'' 60 40 0 25,
              ex_proc 3 ''bash'' 60 40 0 25]
           = Inr (Continue (ex_state 9 [1 \<mapsto> 100, 2 \<mapsto> 100, 3 \<mapsto> 100]) None)"
    by (simp add: handle_key_ERR)
  from iteration_ex_three [OF key] show ?thesis
    by (simp add: marks_render_rows upt_3)
qed

subsection \<open>Claim C4: a process that cannot be read\<close>

text \<open>
  Claim C4, amended. A process whose \<^verbatim>\<open>stat\<close> file cannot be opened, or has a line of at
  most 23 fields, is read without a fault as a process with that pid and with 0 ticks,
  0 pages, no virtual size and an empty command. It is not left out: the sample has one
  entry per pid listed, and the entry of such a pid has these zeros and 0 for both
  percentages.
\<close>

theorem unreadable_process_is_kept:
  "((stat_line e n = None \<or> (\<exists>l. stat_line e n = Some l \<and> length (tokens l) \<le> 23)) \<longrightarrow>
      (\<exists>p. read_proc e n = Inr p \<and> pid p = n \<and> utime p = 0 \<and> stime p = 0 \<and> rss p = 0
            \<and> vsize p = 0 \<and> cmd p = []))
   \<and> ((stat_line e n = None \<or> (\<exists>l. stat_line e n = Some l \<and> length (tokens l) \<le> 23)) \<longrightarrow>
      n \<in> set (pids e) \<longrightarrow> sample e s = Inr (procs, s') \<longrightarrow>
      (\<exists>p\<in>set procs. pid p = n \<and> utime p = 0 \<and> stime p = 0 \<and> rss p = 0 \<and> vsize p = 0
            \<and> cmd p = [] \<and> cpu_percent p = 0 \<and> mem_percent p = 0))
   \<and> (sample e s = Inr (procs, s') \<longrightarrow> map pid procs = pids e)"
proof (intro conjI impI)
  assume "stat_line e n = None \<or> (\<exists>l. stat_line e n = Some l \<and> length (tokens l) \<le> 23)"
  then show "\<exists>p. read_proc e n = Inr p \<and> pid p = n \<and> utime p = 0 \<and> stime p = 0 \<and> rss p = 0
            \<and> vsize p = 0 \<and> cmd p = []"
    by (rule read_proc_unreadable)
next
  assume un: "stat_line e n = None \<or> (\<exists>l. stat_line e n = Some l \<and> length (tokens l) \<le> 23)"
    and n: "n \<in> set (pids e)" and smp: "sample e s = Inr (procs, s')"
  from sample_member [OF smp n] obtain p where p: "p \<in> set procs" "pid p = n" by blast
  have "\<forall>q\<in>set procs.
          (stat_line e (pid q) = None
           \<or> (\<exists>l. stat_line e (pid q) = Some l \<and> length (tokens l) \<le> 23)) \<longrightarrow>
          utime q = 0 \<and> stime q = 0 \<and> rss q = 0 \<and> vsize q = 0 \<and> cmd q = []
          \<and> cpu_percent q = 0 \<and> mem_percent q = 0"
    by (rule sample_all [OF smp]) (rule sample_proc_unreadable)
  with p un have "utime p = 0 \<and> stime p = 0 \<and> rss p = 0 \<and> vsize p = 0 \<and> cmd p = []
          \<and> cpu_percent p = 0 \<and> mem_percent p = 0"
    by blast
  with p show "\<exists>p\<in>set procs. pid p = n \<and> utime p = 0 \<and> stime p = 0 \<and> rss p = 0 \<and> vsize p = 0
            \<and> cmd p = [] \<and> cpu_percent p = 0 \<and> mem_percent p = 0"
    by blast
next
  assume "sample e s = Inr (procs, s')"
  then show "map pid procs = pids e" by (rule sample_shape(1))
qed

text \<open>Pid 7 is listed, its \<^verbatim>\<open>stat\<close> file cannot be opened: the sample has an entry for it,
  all zero.\<close>

theorem unreadable_process_is_kept_witness:
  "stat_line (ex_env 1200 [7] (\<lambda>n. None) ERR) 7 = None
   \<and> 7 \<in> set (pids (ex_env 1200 [7] (\<lambda>n. None) ERR))
   \<and> read_proc (ex_env 1200 [7] (\<lambda>n. None) ERR) 7 = Inr ex_gone
   \<and> sample (ex_env 1200 [7] (\<lambda>n. None) ERR) (ex_state 0 [7 \<mapsto> 100])
       = Inr ([ex_gone], (ex_state 0 [7 \<mapsto> 0])\<lparr>prev_total_jiffies := 1200\<rparr>)
   \<and> pid ex_gone = 7 \<and> utime ex_gone = 0 \<and> stime ex_gone = 0 \<and> rss ex_gone = 0
   \<and> vsize ex_gone = 0 \<and> cmd ex_gone = [] \<and> cpu_percent ex_gone = 0 \<and> mem_percent ex_gone = 0"
  using unreadable_process_is_kept
    [of "ex_env 1200 [7] (\<lambda>n. None) ERR" 7 "ex_state 0 [7 \<mapsto> 100]" "[ex_gone]"
        "(ex_state 0 [7 \<mapsto> 0])\<lparr>prev_total_jiffies := 1200\<rparr>"]
    sample_ex_gone [of ERR] read_proc_ex_gone [of "\<lambda>n. None" 7 1200 "[7]" ERR]
  by (simp add: ex_gone_def)

text \<open>The process of pid 7 has exited before it is read: it is in the sample all the same,
  with 0 ticks and 0 pages.\<close>

theorem unreadable_process_not_omitted:
  "stat_line (ex_env 1200 [7] (\<lambda>n. None) ERR) 7 = None
   \<and> sample (ex_env 1200 [7] (\<lambda>n. None) ERR) (ex_state 0 [7 \<mapsto> 100])
       = Inr ([ex_gone], (ex_state 0 [7 \<mapsto> 0])\<lparr>prev_total_jiffies := 1200\<rparr>)
   \<and> map pid [ex_gone] = [7] \<and> map utime [ex_gone] = [0] \<and> map rss [ex_gone] = [0]"
  using sample_ex_gone [of ERR] by (simp add: ex_gone_def)

subsection \<open>Claim C5: the ranking\<close>

text \<open>
  Claim C5, amended. For every list of processes and every sort mode there is a ranking,
  and every list that \<^verbatim>\<open>std::sort\<close> may leave is a permutation of the input, with the same
  pids, in which no process comes before one with a larger \<^verbatim>\<open>cpu_percent\<close> (by CPU), a
  larger \<^verbatim>\<open>mem_percent\<close> (by memory) or a smaller pid (by pid). The order among processes
  with equal keys is not determined.
\<close>

theorem ranking_sorts_a_permutation:
  "(\<exists>ranked. sort_procs sm procs ranked)
   \<and> (sort_procs sm procs sorted_procs \<longrightarrow>
        mset sorted_procs = mset procs
        \<and> pid ` set sorted_procs = pid ` set procs
        \<and> (sm = BY_CPU \<longrightarrow> sorted_wrt (\<lambda>a b. cpu_percent a \<ge> cpu_percent b) sorted_procs)
        \<and> (sm = BY_MEM \<longrightarrow> sorted_wrt (\<lambda>a b. mem_percent a \<ge> mem_percent b) sorted_procs)
        \<and> (sm = BY_PID \<longrightarrow> sorted_wrt (\<lambda>a b. pid a \<le> pid b) sorted_procs))"
proof (intro conjI impI)
  show "\<exists>ranked. sort_procs sm procs ranked" by (rule sort_procs_exists)
next
  assume "sort_procs sm procs sorted_procs"
  then show "mset sorted_procs = mset procs" by (rule sort_procs_mset)
next
  assume "sort_procs sm procs sorted_procs"
  then show "pid ` set sorted_procs = pid ` set procs" by (simp add: sort_procs_set)
next
  assume "sort_procs sm procs sorted_procs" "sm = BY_CPU"
  then show "sorted_wrt (\<lambda>a b. cpu_percent a \<ge> cpu_percent b) sorted_procs"
    by (simp add: sort_procs_def std_sort_def not_less)
next
  assume "sort_procs sm procs sorted_procs" "sm = BY_MEM"
  then show "sorted_wrt (\<lambda>a b. mem_percent a \<ge> mem_percent b) sorted_procs"
    by (simp add: sort_procs_def std_sort_def not_less)
next
  assume "sort_procs sm procs sorted_procs" "sm = BY_PID"
  then show "sorted_wrt (\<lambda>a b. pid a \<le> pid b) sorted_procs"
    by (simp add: sort_procs_def std_sort_def not_less)
qed

text \<open>Three processes with different percentages and pids, ranked by each of the three
  keys.\<close>

theorem ranking_sorts_a_permutation_witness:
  "sort_procs BY_CPU
      [ex_proc 1 ''a'' 3 1 10 5, ex_proc 2 ''b'' 9 3 30 1, ex_proc 3 ''c'' 6 2 20 7]
      [ex_proc 2 ''b'' 9 3 30 1, ex_proc 3 ''c'' 6 2 20 7, ex_proc 1 ''a'' 3 1 10 5]
   \<and> sorted_wrt (\<lambda>a b. cpu_percent a \<ge> cpu_percent b)
      [ex_proc 2 ''b'' 9 3 30 1, ex_proc 3 ''c'' 6 2 20 7, ex_proc 1 ''a'' 3 1 10 5]
   \<and> sort_procs BY_MEM
      [ex_proc 1 ''a'' 3 1 10 5, ex_proc 2 ''b'' 9 3 30 1, ex_proc 3 ''c'' 6 2 20 7]
      [ex_proc 3 ''c'' 6 2 20 7, ex_proc 1 ''a'' 3 1 10 5, ex_proc 2 ''b'' 9 3 30 1]
   \<and> sorted_wrt (\<lambda>a b. mem_percent a \<ge> mem_percent b)
      [ex_proc 3 ''c'' 6 2 20 7, ex_proc 1 ''a'' 3 1 10 5, ex_proc 2 ''b'' 9 3 30 1]
   \<and> sort_procs BY_PID
      [ex_proc 3 ''c'' 6 2 20 7, ex_proc 1 ''a'' 3 1 10 5, ex_proc 2 ''b'' 9 3 30 1]
      [ex_proc 1 ''a'' 3 1 10 5, ex_proc 2 ''b'' 9 3 30 1, ex_proc 3 ''c'' 6 2 20 7]
   \<and> sorted_wrt (\<lambda>a b. pid a \<le> pid b)
      [ex_proc 1 ''a'' 3 1 10 5, ex_proc 2 ''b'' 9 3 30 1, ex_proc 3 ''c'' 6 2 20 7]
   \<and> pid ` set [ex_proc 2 ''b'' 9 3 30 1, ex_proc 3 ''c'' 6 2 20 7, ex_proc 1 ''a'' 3 1 10 5]
       = pid ` set [ex_proc 1 ''a'' 3 1 10 5, ex_proc 2 ''b'' 9 3 30 1, ex_proc 3 ''c'' 6 2 20 7]"
proof -
  let ?a = "ex_proc 1 ''a'' 3 1 10 5" and ?b = "ex_proc 2 ''b'' 9 3 30 1"
    and ?c = "ex_proc 3 ''c'' 6 2 20 7"
  have cpu: "sort_procs BY_CPU [?a, ?b, ?c] [?b, ?c, ?a]"
    by (simp add: sort_procs_def std_sort_def ex_proc_def)
  have mem: "sort_procs BY_MEM [?a, ?b, ?c] [?c, ?a, ?b]"
    by (simp add: sort_procs_def std_sort_def ex_proc_def)
  have byp: "sort_procs BY_PID [?c, ?a, ?b] [?a, ?b, ?c]"
    by (simp add: sort_procs_def std_sort_def ex_proc_def)
  from ranking_sorts_a_permutation [of BY_CPU "[?a, ?b, ?c]" "[?b, ?c, ?a]"]
    ranking_sorts_a_permutation [of BY_MEM "[?a, ?b, ?c]" "[?c, ?a, ?b]"]
    ranking_sorts_a_permutation [of BY_PID "[?c, ?a, ?b]" "[?a, ?b, ?c]"]
    cpu mem byp
  show ?thesis by simp
qed

text \<open>
  Two processes, and then seventeen, that all have 0 percent of CPU and 25 percent of
  memory, as in a first cycle in which no jiffy has passed. Each list is given in the order
  of the pids; \<^verbatim>\<open>std::sort\<close> may return the two exchanged, and the seventeen with pid 9
  first, pid 1 in the tenth place and the others in descending order around it.
\<close>

theorem ranking_need_not_keep_ties_in_order:
  "sort_procs BY_CPU (ex_idle [1, 2]) (ex_idle [2, 1])
   \<and> sort_procs BY_MEM (ex_idle [1, 2]) (ex_idle [2, 1])
   \<and> sort_procs BY_CPU (ex_idle [1, 2, 3, 4, 5, 6, 7, 8, 9, 10, 11, 12, 13, 14, 15, 16, 17])
        (ex_idle [9, 17, 16, 15, 14, 13, 12, 11, 10, 1, 8, 7, 6, 5, 4, 3, 2])
   \<and> map cpu_percent (ex_idle [1, 2]) = [0, 0]
   \<and> map mem_percent (ex_idle [1, 2]) = [25, 25]
   \<and> map pid (ex_idle [1, 2]) = [1, 2]
   \<and> map pid (ex_idle [2, 1]) = [2, 1]"
  using idle17 by (simp add: sort_procs_def std_sort_def ex_idle_def ex_proc_def)

subsection \<open>Claim C6: the percentage is never negative\<close>

text \<open>
  Claim C6. Every process of a sample has a \<^verbatim>\<open>cpu_percent\<close> that is not negative. When the
  ticks of a process are below the ticks the map holds for its pid (the pid was reused),
  the delta is 0, not a negative number, and the percentage is 0: in every sample, a
  process whose pid has a larger entry in the map gets 0.
\<close>

theorem cpu_percent_never_negative:
  "(sample e s = Inr (procs, s') \<longrightarrow> (\<forall>p\<in>set procs. 0 \<le> cpu_percent p))
   \<and> (cur < prev \<longrightarrow> delta cur prev = 0 \<and> cpu_pct (delta cur prev) td = Inr 0)
   \<and> (sample e s = Inr (procs, s') \<longrightarrow>
        (\<forall>p\<in>set procs. \<forall>v. prev_proc_jiffies s (pid p) = Some v \<longrightarrow> utime p + stime p < v
           \<longrightarrow> cpu_percent p = 0))"
proof (intro conjI impI ballI allI)
  fix p
  assume "sample e s = Inr (procs, s')" "p \<in> set procs"
  then show "0 \<le> cpu_percent p" using sample_nonneg by blast
next
  assume "cur < prev"
  then show "delta cur prev = 0" by (rule delta_reuse)
next
  assume "cur < prev"
  then show "cpu_pct (delta cur prev) td = Inr 0"
    by (simp add: delta_reuse cpu_pct_zero_delta)
next
  fix p v
  assume smp: "sample e s = Inr (procs, s')"
    and p: "p \<in> set procs" and v: "prev_proc_jiffies s (pid p) = Some v"
    and less: "utime p + stime p < v"
  from v have "prev_of (prev_proc_jiffies s) (pid p) = v" by (simp add: prev_of_def)
  with sample_cpu_any [OF smp] p
  have "cpu_percent p = 0
        \<or> cpu_pct (delta (utime p + stime p) v)
             (total_delta (total_jiffies e) (prev_total_jiffies s)) = Inr (cpu_percent p)"
    by auto
  then show "cpu_percent p = 0"
    by (auto simp: delta_reuse [OF less] cpu_pct_zero_delta)
qed

text \<open>The map holds 1000 ticks for pid 7 and the process now has 10: delta 0 and 0 percent.\<close>

theorem cpu_percent_never_negative_witness:
  "sample (ex_env 1200 [7] (\<lambda>n. Some ex_stat_10) ERR) (ex_state 0 [7 \<mapsto> 1000])
     = Inr ([ex_proc 7 ''sh'' 6 4 0 25], (ex_state 0 [7 \<mapsto> 10])\<lparr>prev_total_jiffies := 1200\<rparr>)
   \<and> 0 \<le> cpu_percent (ex_proc 7 ''sh'' 6 4 0 25)
   \<and> (10 :: ulong) < 1000 \<and> delta 10 1000 = 0 \<and> cpu_pct (delta 10 1000) 200 = Inr 0
   \<and> prev_proc_jiffies (ex_state 0 [7 \<mapsto> 1000]) (pid (ex_proc 7 ''sh'' 6 4 0 25)) = Some 1000
   \<and> utime (ex_proc 7 ''sh'' 6 4 0 25) + stime (ex_proc 7 ''sh'' 6 4 0 25) < 1000
   \<and> cpu_percent (ex_proc 7 ''sh'' 6 4 0 25) = 0"
  using cpu_percent_never_negative
    [of "ex_env 1200 [7] (\<lambda>n. Some ex_stat_10) ERR" "ex_state 0 [7 \<mapsto> 1000]"
        "[ex_proc 7 ''sh'' 6 4 0 25]" "(ex_state 0 [7 \<mapsto> 10])\<lparr>prev_total_jiffies := 1200\<rparr>"
        10 1000 200]
    sample_ex_reuse [of ERR]
  by (simp add: ex_proc_def delta_reuse cpu_pct_zero_delta)

subsection \<open>Claim C7: no system ticks, no percentage, no division\<close>

text \<open>
  Claim C7. When the total of the jiffies has not grown since the iteration before (it is
  equal, or it went backwards and the delta is clamped to 0), every process of the sample
  has \<^verbatim>\<open>cpu_percent\<close> 0; and neither the sampling nor the whole iteration ever divides
  by zero.
\<close>

theorem zero_system_delta_gives_zero_percent:
  "sample e s \<noteq> Inl DivisionByZero
   \<and> (iteration e s r \<longrightarrow> r \<noteq> Inl DivisionByZero)
   \<and> (tj \<le> ptj \<longrightarrow> total_delta tj ptj = 0)
   \<and> cpu_pct d 0 = Inr 0
   \<and> (total_jiffies e \<le> prev_total_jiffies s \<longrightarrow> sample e s = Inr (procs, s') \<longrightarrow>
        (\<forall>p\<in>set procs. cpu_percent p = 0))"
proof (intro conjI impI)
  show "sample e s \<noteq> Inl DivisionByZero" using sample_faults [of e s DivisionByZero] by auto
next
  assume "iteration e s r"
  then show "r \<noteq> Inl DivisionByZero"
  proof cases
    case (sample_fault f)
    then show ?thesis using sample_faults [of e s f] by auto
  next
    case (key_fault procs s1 sorted_procs f)
    then show ?thesis using handle_key_faults [of e s1 sorted_procs f] by auto
  next
    case (completed procs s1 sorted_procs out)
    then show ?thesis by simp
  qed
next
  assume "tj \<le> ptj"
  then show "total_delta tj ptj = 0" by (rule total_delta_backwards)
next
  show "cpu_pct d 0 = Inr 0" by (rule cpu_pct_zero_total)
next
  assume "total_jiffies e \<le> prev_total_jiffies s" "sample e s = Inr (procs, s')"
  then show "\<forall>p\<in>set procs. cpu_percent p = 0" by (rule sample_zero_total)
qed

text \<open>The total stays at 1000 while the process goes from 100 to 150 ticks: 0 percent.\<close>

theorem zero_system_delta_gives_zero_percent_witness:
  "(1000 :: ulong) \<le> 1000 \<and> total_delta 1000 1000 = 0
   \<and> sample (ex_env 1000 [7] (\<lambda>n. Some ex_stat_150) ERR) (ex_state 0 [7 \<mapsto> 100])
       = Inr ([ex_proc 7 ''bash'' 90 60 0 25], (ex_state 0 [7 \<mapsto> 150])\<lparr>prev_total_jiffies := 1000\<rparr>)
   \<and> cpu_percent (ex_proc 7 ''bash'' 90 60 0 25) = 0
   \<and> iteration (ex_env 1000 [7] (\<lambda>n. Some ex_stat_150) ERR) (ex_state 0 [7 \<mapsto> 100])
        (Inr (render_rows 24 [ex_proc 7 ''bash'' 90 60 0 25] 0,
              Continue ((ex_state 0 [7 \<mapsto> 150])\<lparr>prev_total_jiffies := 1000\<rparr>) None))"
proof -
  let ?e = "ex_env 1000 [7] (\<lambda>n. Some ex_stat_150) ERR"
  let ?s = "ex_state 0 [7 \<mapsto> 100]"
  let ?s1 = "(ex_state 0 [7 \<mapsto> 150])\<lparr>prev_total_jiffies := 1000\<rparr>"
  let ?procs = "[ex_proc 7 ''bash'' 90 60 0 25]"
  have srt: "sort_procs (sortmode ?s1) ?procs ?procs"
    by (simp add: sort_procs_def std_sort_def)
  have key: "handle_key ?e ?s1 ?procs = Inr (Continue ?s1 None)"
    by (simp add: handle_key_ERR)
  have it: "iteration ?e ?s (Inr (render_rows (rows ?e) ?procs (highlight ?s1), Continue ?s1 None))"
    by (rule iteration.completed [OF sample_ex_stalled [of ERR] srt key])
  from zero_system_delta_gives_zero_percent
    [of ?e ?s "Inr (render_rows (rows ?e) ?procs (highlight ?s1), Continue ?s1 None)"
        1000 1000 0 ?procs ?s1]
    sample_ex_stalled [of ERR] it
  show ?thesis by simp
qed

subsection \<open>Claim C8: the memory percentage\<close>

text \<open>
  Claim C8. With a positive total of memory, \<^verbatim>\<open>mem_pct\<close> is 100 times the resident bytes
  (pages times page size, a product that fits a \<^verbatim>\<open>long\<close>) over the total in bytes (1024
  times \<^verbatim>\<open>mem_total_kb\<close>); twice the pages give twice the percentage; with a total of 0 it
  is 0; and every process of a sample has this formula's value as its \<^verbatim>\<open>mem_percent\<close>.
\<close>

theorem mem_percent_formula:
  "(0 < kb \<longrightarrow> LONG_MIN \<le> rs * ps \<longrightarrow> rs * ps \<le> LONG_MAX \<longrightarrow>
      mem_pct rs ps kb
        = Inr (100 * (real_of_int rs * real_of_int ps) / (real (unat kb) * 1024)))
   \<and> (mem_pct rs ps kb = Inr x \<longrightarrow> mem_pct (2 * rs) ps kb = Inr y \<longrightarrow> y = 2 * x)
   \<and> mem_pct rs ps 0 = Inr 0
   \<and> (sample e s = Inr (procs, s') \<longrightarrow>
        (\<forall>p\<in>set procs.
           mem_percent p =
             (if 0 < mem_total_kb e
              then 100 * (real_of_int (rss p) * real_of_int (page_size s))
                     / (real (unat (mem_total_kb e)) * 1024)
              else 0)))"
proof (intro conjI impI)
  assume "0 < kb" "LONG_MIN \<le> rs * ps" "rs * ps \<le> LONG_MAX"
  then show "mem_pct rs ps kb
      = Inr (100 * (real_of_int rs * real_of_int ps) / (real (unat kb) * 1024))"
    unfolding mem_pct_value by (simp del: of_nat_unat)
next
  assume "mem_pct rs ps kb = Inr x" "mem_pct (2 * rs) ps kb = Inr y"
  then show "y = 2 * x"
    unfolding mem_pct_value by (auto simp del: of_nat_unat split: if_splits)
next
  show "mem_pct rs ps 0 = Inr 0" by (simp add: mem_pct_value)
next
  assume smp: "sample e s = Inr (procs, s')"
  show "\<forall>p\<in>set procs.
           mem_percent p =
             (if 0 < mem_total_kb e
              then 100 * (real_of_int (rss p) * real_of_int (page_size s))
                     / (real (unat (mem_total_kb e)) * 1024)
              else 0)"
  proof
    fix p assume "p \<in> set procs"
    with sample_mem [OF smp]
    have "mem_pct (rss p) (page_size s) (mem_total_kb e) = Inr (mem_percent p)" by blast
    then show "mem_percent p =
             (if 0 < mem_total_kb e
              then 100 * (real_of_int (rss p) * real_of_int (page_size s))
                     / (real (unat (mem_total_kb e)) * 1024)
              else 0)"
      unfolding mem_pct_value by (auto simp del: of_nat_unat split: if_splits)
  qed
qed

text \<open>500 pages of 4096 bytes out of 8000 kB are 25 percent, 1000 pages are 50 percent.\<close>

theorem mem_percent_formula_witness:
  "(0 :: ulong) < 8000 \<and> LONG_MIN \<le> 500 * 4096 \<and> 500 * 4096 \<le> LONG_MAX
   \<and> mem_pct 500 4096 8000 = Inr 25 \<and> mem_pct 1000 4096 8000 = Inr 50
   \<and> mem_pct 500 4096 0 = Inr 0
   \<and> sample (ex_env 1200 [7] (\<lambda>n. Some ex_stat_150) ERR) (ex_state 0 [7 \<mapsto> 100])
       = Inr ([ex_proc 7 ''bash'' 90 60 25 25], (ex_state 0 [7 \<mapsto> 150])\<lparr>prev_total_jiffies := 1200\<rparr>)
   \<and> mem_percent (ex_proc 7 ''bash'' 90 60 25 25) = 25"
proof -
  have a: "mem_pct 500 4096 8000 = Inr 25" and b: "mem_pct (2 * 500) 4096 8000 = Inr 50"
    by (simp_all add: mem_pct_value LONG_MIN_def LONG_MAX_def)
  from mem_percent_formula
    [of 8000 500 4096 25 50 "ex_env 1200 [7] (\<lambda>n. Some ex_stat_150) ERR"
        "ex_state 0 [7 \<mapsto> 100]" "[ex_proc 7 ''bash'' 90 60 25 25]"
        "(ex_state 0 [7 \<mapsto> 150])\<lparr>prev_total_jiffies := 1200\<rparr>"]
    a b sample_ex_second [of ERR]
  show ?thesis by (simp add: LONG_MIN_def LONG_MAX_def ex_proc_def)
qed

subsection \<open>Claim C9: the interval stays at 1 or more\<close>

text \<open>
  Claim C9. The interval starts at 2; the key that shortens it (\<^verbatim>\<open>+\<close> in this program) sets
  it to the larger of 1 and the interval less 1; the key that lengthens it (\<^verbatim>\<open>-\<close>) adds 1;
  and in every state at the head of the loop the interval is at least 1.
\<close>

theorem interval_at_least_one:
  "interval_s (init_state ps j0) = 2
   \<and> (reachable s \<longrightarrow> 1 \<le> interval_s s)
   \<and> (ch e = CH (CHR ''+'') \<longrightarrow> handle_key e s procs = Inr (Continue s' msg)
        \<longrightarrow> interval_s s' = max 1 (interval_s s - 1))
   \<and> (ch e = CH (CHR ''-'') \<longrightarrow> handle_key e s procs = Inr (Continue s' msg)
        \<longrightarrow> interval_s s' = interval_s s + 1)"
proof (intro conjI impI)
  show "interval_s (init_state ps j0) = 2" by (simp add: init_state_def)
next
  assume "reachable s"
  then show "1 \<le> interval_s s" by (rule reachable_interval)
next
  assume "ch e = CH (CHR ''+'')" "handle_key e s procs = Inr (Continue s' msg)"
  then show "interval_s s' = max 1 (interval_s s - 1)"
    using handle_key_Continue [of e s procs s' msg] by simp
next
  assume "ch e = CH (CHR ''-'')" "handle_key e s procs = Inr (Continue s' msg)"
  then show "interval_s s' = interval_s s + 1"
    using handle_key_Continue [of e s procs s' msg] by simp
qed

text \<open>After one iteration with the key \<^verbatim>\<open>+\<close> the interval is 1; a second \<^verbatim>\<open>+\<close> leaves it at 1,
  and \<^verbatim>\<open>-\<close> brings it back to 2.\<close>

theorem interval_at_least_one_witness:
  "reachable ((ex_state 0 [7 \<mapsto> 100])\<lparr>prev_total_jiffies := 1000, interval_s := 1\<rparr>)
   \<and> 1 \<le> interval_s ((ex_state 0 [7 \<mapsto> 100])\<lparr>prev_total_jiffies := 1000, interval_s := 1\<rparr>)
   \<and> ch (ex_env 1000 [] (\<lambda>n. None) (CH (CHR ''+''))) = CH (CHR ''+'')
   \<and> handle_key (ex_env 1000 [] (\<lambda>n. None) (CH (CHR ''+'')))
        ((ex_state 0 [7 \<mapsto> 100])\<lparr>prev_total_jiffies := 1000, interval_s := 1\<rparr>) []
       = Inr (Continue ((ex_state 0 [7 \<mapsto> 100])\<lparr>prev_total_jiffies := 1000, interval_s := 1\<rparr>) None)
   \<and> ch (ex_env 1000 [] (\<lambda>n. None) (CH (CHR ''-''))) = CH (CHR ''-'')
   \<and> handle_key (ex_env 1000 [] (\<lambda>n. None) (CH (CHR ''-'')))
        ((ex_state 0 [7 \<mapsto> 100])\<lparr>prev_total_jiffies := 1000, interval_s := 1\<rparr>) []
       = Inr (Continue ((ex_state 0 [7 \<mapsto> 100])\<lparr>prev_total_jiffies := 1000, interval_s := 2\<rparr>) None)"
proof -
  let ?e = "ex_env 1000 [7] (\<lambda>n. Some ex_stat_100) (CH (CHR ''+''))"
  let ?s1 = "(ex_state 0 [7 \<mapsto> 100])\<lparr>prev_total_jiffies := 1000\<rparr>"
  let ?s2 = "(ex_state 0 [7 \<mapsto> 100])\<lparr>prev_total_jiffies := 1000, interval_s := 1\<rparr>"
  let ?s3 = "(ex_state 0 [7 \<mapsto> 100])\<lparr>prev_total_jiffies := 1000, interval_s := 2\<rparr>"
  let ?procs = "[ex_proc 7 ''bash'' 60 40 0 25]"
  have r0: "reachable (ex_state 0 Map.empty)"
    unfolding init_state_ex [symmetric] by (rule reachable.start)
  have srt: "sort_procs (sortmode ?s1) ?procs ?procs"
    by (simp add: sort_procs_def std_sort_def)
  have key: "handle_key ?e ?s1 ?procs = Inr (Continue ?s2 None)"
    by (simp add: handle_key_plus in_int_small)
  have it: "iteration ?e (ex_state 0 Map.empty)
              (Inr (render_rows (rows ?e) ?procs (highlight ?s1), Continue ?s2 None))"
    by (rule iteration.completed [OF sample_ex_first srt key])
  have r2: "reachable ?s2" by (rule reachable.step [OF r0 it])
  have plus: "handle_key (ex_env 1000 [] (\<lambda>n. None) (CH (CHR ''+''))) ?s2 []
                = Inr (Continue ?s2 None)"
    by (simp add: handle_key_plus in_int_small)
  have minus: "handle_key (ex_env 1000 [] (\<lambda>n. None) (CH (CHR ''-''))) ?s2 []
                = Inr (Continue ?s3 None)"
    by (simp add: handle_key_minus in_int_small)
  from interval_at_least_one [of 4096 1000 ?s2 "ex_env 1000 [] (\<lambda>n. None) (CH (CHR ''+''))" "[]" ?s2 None]
    r2 plus minus
  show ?thesis by simp
qed

subsection \<open>Claim C10: the signal goes to a process of the list only\<close>

text \<open>
  Claim C10. A status message, which the handler writes right after calling \<^verbatim>\<open>kill\<close>, comes
  only from the key \<^verbatim>\<open>k\<close> with the cursor inside the list, the access to the vector is then
  in bounds and the signal goes to the pid at the cursor. With \<^verbatim>\<open>k\<close> and the cursor outside
  the list (an empty list, a negative cursor) nothing is sent and the loop continues in
  the same state. Neither the handler nor an iteration ever accesses the vector out of
  bounds.
\<close>

theorem kill_only_in_range:
  "(handle_key e s procs = Inr (Continue s' (Some st)) \<longrightarrow>
      ch e = CH (CHR ''k'') \<and> 0 \<le> highlight s \<and> highlight s < int (length procs)
      \<and> at_index procs (highlight s) = Inr (procs ! nat (highlight s))
      \<and> st = (if kill_result e (pid (procs ! nat (highlight s))) = 0
               then Killed (pid (procs ! nat (highlight s)))
               else FailedToKill (pid (procs ! nat (highlight s)))))
   \<and> (ch e = CH (CHR ''k'') \<longrightarrow> \<not> (0 \<le> highlight s \<and> highlight s < int (length procs))
        \<longrightarrow> handle_key e s procs = Inr (Continue s None))
   \<and> handle_key e s procs \<noteq> Inl IndexOutOfBounds
   \<and> (iteration e s r \<longrightarrow> r \<noteq> Inl IndexOutOfBounds)"
proof (intro conjI impI)
  assume hk: "handle_key e s procs = Inr (Continue s' (Some st))"
  from handle_key_Continue [OF hk]
  have msg: "Some st =
           (if ch e = CH (CHR ''k'') \<and> 0 \<le> highlight s \<and> highlight s < int (length procs)
            then Some (if kill_result e (pid (procs ! nat (highlight s))) = 0
                       then Killed (pid (procs ! nat (highlight s)))
                       else FailedToKill (pid (procs ! nat (highlight s))))
            else None)"
    by blast
  then have c: "ch e = CH (CHR ''k'') \<and> 0 \<le> highlight s \<and> highlight s < int (length procs)"
    by (simp split: if_splits)
  from c show "ch e = CH (CHR ''k'')" by simp
  from c show "0 \<le> highlight s" by simp
  from c show "highlight s < int (length procs)" by simp
  from c show "at_index procs (highlight s) = Inr (procs ! nat (highlight s))"
    by (simp add: at_index_Inr)
  from msg c show "st = (if kill_result e (pid (procs ! nat (highlight s))) = 0
               then Killed (pid (procs ! nat (highlight s)))
               else FailedToKill (pid (procs ! nat (highlight s))))"
    by simp
next
  assume "ch e = CH (CHR ''k'')" "\<not> (0 \<le> highlight s \<and> highlight s < int (length procs))"
  then show "handle_key e s procs = Inr (Continue s None)"
    by (simp add: handle_key_k)
next
  show "handle_key e s procs \<noteq> Inl IndexOutOfBounds"
    using handle_key_faults [of e s procs IndexOutOfBounds] by auto
next
  assume "iteration e s r"
  then show "r \<noteq> Inl IndexOutOfBounds"
    using iteration_faults [of e s IndexOutOfBounds] by auto
qed

text \<open>With one process and the cursor on it, \<^verbatim>\<open>k\<close> sends the signal to pid 7; with no
  process and the cursor at -1, it sends nothing and the loop goes on.\<close>

theorem kill_only_in_range_witness:
  "handle_key (ex_env 1000 [7] (\<lambda>n. None) (CH (CHR ''k''))) (ex_state 0 Map.empty)
       [ex_proc 7 ''bash'' 60 40 0 25]
     = Inr (Continue (ex_state 0 Map.empty) (Some (Killed 7)))
   \<and> (0 :: int) \<le> highlight (ex_state 0 Map.empty)
   \<and> highlight (ex_state 0 Map.empty) < int (length [ex_proc 7 ''bash'' 60 40 0 25])
   \<and> ch (ex_env 1000 [] (\<lambda>n. None) (CH (CHR ''k''))) = CH (CHR ''k'')
   \<and> \<not> (0 \<le> highlight (ex_state (- 1) Map.empty)
          \<and> highlight (ex_state (- 1) Map.empty) < int (length ([] :: ProcInfo list)))
   \<and> handle_key (ex_env 1000 [] (\<lambda>n. None) (CH (CHR ''k''))) (ex_state (- 1) Map.empty) []
     = Inr (Continue (ex_state (- 1) Map.empty) None)"
proof -
  have hit: "handle_key (ex_env 1000 [7] (\<lambda>n. None) (CH (CHR ''k''))) (ex_state 0 Map.empty)
       [ex_proc 7 ''bash'' 60 40 0 25]
     = Inr (Continue (ex_state 0 Map.empty) (Some (Killed 7)))"
    by (simp add: handle_key_k ex_proc_def)
  from kill_only_in_range
    [of "ex_env 1000 [7] (\<lambda>n. None) (CH (CHR ''k''))" "ex_state 0 Map.empty"
        "[ex_proc 7 ''bash'' 60 40 0 25]" "ex_state 0 Map.empty" "Killed 7"]
    kill_only_in_range
    [of "ex_env 1000 [] (\<lambda>n. None) (CH (CHR ''k''))" "ex_state (- 1) Map.empty" "[]"]
    hit
  show ?thesis by simp
qed

end
